theory Spec2Isabelle
  imports Complex_Main "HOL-Library.Multiset"
begin

section \<open>Python values and errors\<close>

text \<open>
  Every \<^verbatim>\<open>raise\<close> of \<^verbatim>\<open>multiprocessing.py\<close>, and every exception that Python or
  numpy raises inside the code that is modelled, is a value of this type. A fallible
  operation returns \<open>py_error + 'a\<close>, with \<open>Inl\<close> for the exception.
\<close>

datatype py_error =
    ZeroDivisionError
  | ValueError
  | IndexError
  | AttributeError
  | UnboundLocalError
  | KeyError
  | NoMPIException
  | NoAgentsException
  | NameError

section \<open>The grid partitioner (lines 236 to 255 of \<^verbatim>\<open>mpi_master_work\<close>)\<close>

text \<open>
  \<^verbatim>\<open>np.arange(a, b)\<close> on Python integers: \<open>a, a + 1, ..., b - 1\<close>, empty when
  \<open>b \<le> a\<close>.
\<close>

definition arange :: "int \<Rightarrow> int \<Rightarrow> int list" where
  "arange a b = [a..b - 1]"

text \<open>
  Lines 236 to 244: \<^verbatim>\<open>rangex\<close> is \<^verbatim>\<open>None\<close> or a pair; without a pair the whole axis
  \<^verbatim>\<open>np.arange(n)\<close> is taken.
\<close>

definition axis_coords :: "(int \<times> int) option \<Rightarrow> int \<Rightarrow> int list" where
  "axis_coords r n = (case r of None \<Rightarrow> arange 0 n | Some (a, b) \<Rightarrow> arange a b)"

text \<open>
  Lines 250 to 252: \<^verbatim>\<open>X, Y = np.meshgrid(x, y)\<close> has shape \<open>(len y, len x)\<close> with
  \<open>X[i, j] = x[j]\<close> and \<open>Y[i, j] = y[i]\<close>; \<^verbatim>\<open>flatten()\<close> reads it row by row.
\<close>

definition meshgrid_X :: "int list \<Rightarrow> int list \<Rightarrow> int list" where
  "meshgrid_X x y = concat (map (\<lambda>_. x) y)"

definition meshgrid_Y :: "int list \<Rightarrow> int list \<Rightarrow> int list" where
  "meshgrid_Y x y = concat (map (\<lambda>yv. map (\<lambda>_. yv) x) y)"

text \<open>
  \<^verbatim>\<open>np.array_split(ary, n)\<close> for an integer \<open>n\<close> (numpy, not part of the repository):
  it raises \<^verbatim>\<open>ValueError\<close> when \<open>n \<le> 0\<close>; otherwise, for an array of length \<open>l\<close>, it
  returns \<open>l mod n\<close> pieces of length \<open>l div n + 1\<close> followed by \<open>n - l mod n\<close> pieces of
  length \<open>l div n\<close>, taken from the array in order.
\<close>

definition section_sizes :: "nat \<Rightarrow> nat \<Rightarrow> nat list" where
  "section_sizes l n = replicate (l mod n) (l div n + 1) @ replicate (n - l mod n) (l div n)"

fun cut_sections :: "nat list \<Rightarrow> 'a list \<Rightarrow> 'a list list" where
  "cut_sections [] xs = []"
| "cut_sections (k # ks) xs = take k xs # cut_sections ks (drop k xs)"

definition array_split :: "'a list \<Rightarrow> int \<Rightarrow> py_error + 'a list list" where
  "array_split ary n =
     (if n \<le> 0 then Inl ValueError
      else Inr (cut_sections (section_sizes (length ary) (nat n)) ary))"

text \<open>
  Python's \<^verbatim>\<open>//\<close> on integers: floor division, \<^verbatim>\<open>ZeroDivisionError\<close> for a zero
  divisor. Floor division is \<open>div\<close> on \<open>int\<close>.
\<close>

definition floordiv :: "int \<Rightarrow> int \<Rightarrow> py_error + int" where
  "floordiv a b = (if b = 0 then Inl ZeroDivisionError else Inr (a div b))"

text \<open>
  The outcome of lines 236 to 255: \<^verbatim>\<open>self.n_pixels\<close>, \<^verbatim>\<open>self.n_batches\<close>,
  \<^verbatim>\<open>divX\<close> and \<^verbatim>\<open>divY\<close>.
\<close>

record partition =
  p_n_pixels :: int
  p_n_batches :: int
  divX :: "int list list"
  divY :: "int list list"

definition make_partition ::
  "int \<Rightarrow> int \<Rightarrow> (int \<times> int) option \<Rightarrow> (int \<times> int) option \<Rightarrow> int \<Rightarrow> py_error + partition"
where
  "make_partition nx ny rangex rangey batch =
     (let x = axis_coords rangex nx;
          y = axis_coords rangey ny;
          n_pixels = int (length x) * int (length y)
      in case floordiv n_pixels batch of
           Inl e \<Rightarrow> Inl e
         | Inr n_batches \<Rightarrow>
             (let X = meshgrid_X x y; Y = meshgrid_Y x y
              in case array_split X n_batches of
                   Inl e \<Rightarrow> Inl e
                 | Inr dX \<Rightarrow>
                     (case array_split Y n_batches of
                        Inl e \<Rightarrow> Inl e
                      | Inr dY \<Rightarrow>
                          Inr \<lparr>p_n_pixels = n_pixels, p_n_batches = n_batches,
                               divX = dX, divY = dY\<rparr>)))"

text \<open>
  Batch \<open>i\<close> as the dispatch loop reads it (lines 292 and 293): the coordinate pairs
  \<open>(divX[i][k], divY[i][k])\<close>.
\<close>

definition batch_pixels :: "partition \<Rightarrow> nat \<Rightarrow> (int \<times> int) list" where
  "batch_pixels p i = zip (divX p ! i) (divY p ! i)"

text \<open>
  The requested pixel set in the words of the specification: the pixels \<open>(x, y)\<close> of the
  sub-rectangle, or of the whole grid \<open>[0, nx) \<times> [0, ny)\<close> where no restriction is given.
\<close>

definition requested_axis :: "(int \<times> int) option \<Rightarrow> int \<Rightarrow> int set" where
  "requested_axis r n = (case r of None \<Rightarrow> {0..<n} | Some (a, b) \<Rightarrow> {a..<b})"

definition requested_pixels ::
  "int \<Rightarrow> int \<Rightarrow> (int \<times> int) option \<Rightarrow> (int \<times> int) option \<Rightarrow> (int \<times> int) set" where
  "requested_pixels nx ny rangex rangey = requested_axis rangex nx \<times> requested_axis rangey ny"

section \<open>The data of a run\<close>

text \<open>
  Physical quantities are 32-bit floats in the source, converted to 64-bit floats before
  they reach the physics model. They are modelled as real numbers: rounding, infinities
  and NaN are outside the model, and \<open>x / 0\<close> is the real division of HOL where numpy
  would produce an infinity or a NaN without raising.
  A depth profile \<^verbatim>\<open>cube[:, iy, ix]\<close> is a list of values.
\<close>

type_synonym profile = "real list"

text \<open>
  The nine quantity cubes \<^verbatim>\<open>self.T\<close> to \<^verbatim>\<open>self.ne\<close>, each addressed as (depth, y, x);
  a cube is the function from \<open>(y, x)\<close> to the depth profile of that pixel. Every cube
  is taken to have the extent \<open>(ny, nx)\<close> of the model in its last two axes.
\<close>

record cubes =
  cube_T :: "nat \<Rightarrow> nat \<Rightarrow> profile"
  cube_P :: "nat \<Rightarrow> nat \<Rightarrow> profile"
  cube_rho :: "nat \<Rightarrow> nat \<Rightarrow> profile"
  cube_vz :: "nat \<Rightarrow> nat \<Rightarrow> profile"
  cube_Bx :: "nat \<Rightarrow> nat \<Rightarrow> profile"
  cube_By :: "nat \<Rightarrow> nat \<Rightarrow> profile"
  cube_Bz :: "nat \<Rightarrow> nat \<Rightarrow> profile"
  cube_tau500 :: "nat \<Rightarrow> nat \<Rightarrow> profile"
  cube_ne :: "nat \<Rightarrow> nat \<Rightarrow> profile"

text \<open>
  The array \<^verbatim>\<open>stokes\<close> that the physics model returns for one pixel: row 0 is the
  wavelength axis, rows 1 to 4 are I, Q, U and V.
\<close>

record stokes =
  stokes_lambda :: profile
  stokes_I :: profile
  stokes_Q :: profile
  stokes_U :: profile
  stokes_V :: profile

text \<open>
  \<^verbatim>\<open>self.model\<close>: the attributes that \<^verbatim>\<open>multiprocessing.py\<close> reads. The class is not
  part of the source file, so its two entry points are parameters: \<open>synth\<close> takes the nine
  profiles of one pixel (T, P, rho, vz, Bx, By, Bz, tau500, ne, in this order) and the
  interpolation flag; \<open>synth2d\<close> takes nine arrays of shape (depth, pixel), each stored as
  the list of the profiles of its pixels, and returns one \<open>stokes\<close> and one resampled model
  per pixel. \<open>muram_cubes\<close> is what the nine files hold once read, reshaped and transposed
  (lines 100 to 134 and 199 to 233); failures of file input and output are not modelled.
\<close>

record sir_model =
  atmosphere_type :: string
  model_nx :: int
  model_ny :: int
  n_lambda_sir :: int
  n_tau :: int
  output_file :: string
  interpolated_model_filename :: "string option"
  lambda_zeropoint :: real
  vz_type :: string
  muram_cubes :: cubes
  synth :: "profile list \<Rightarrow> bool \<Rightarrow> stokes \<times> real list list"
  synth2d :: "profile list list \<Rightarrow> bool \<Rightarrow> stokes list \<times> real list list list"

text \<open>
  The output store is an external collaborator; what the code does to it is recorded as a
  trace of events, in program order. A dataset is created with a shape and, for the four
  channel datasets, a chunk shape.
  \<open>WriteModel_yx\<close> is the assignment \<^verbatim>\<open>model_db[iy,ix,:,:] = ...\<close> of the serial path,
  \<open>WriteModel_cyx\<close> the assignment \<^verbatim>\<open>model_db[:,y,x,:] = ...\<close> of the distributed path.
\<close>

datatype h5file = F_stokes | F_model

datatype dset = DS_I | DS_Q | DS_U | DS_V | DS_lambda | DS_model

record task =
  t_index :: nat
  t_indX :: "int list"
  t_indY :: "int list"
  t_interpolate :: bool
  t_model :: "profile list list"

record result =
  r_index :: nat
  r_indX :: "int list"
  r_indY :: "int list"
  r_stokes :: "stokes list"
  r_model :: "real list list list option"

text \<open>The four message tags of \<^verbatim>\<open>class tags\<close>, by direction.\<close>

datatype to_master = READY | DONE result | EXIT_ack

datatype to_agent = START task | EXIT

datatype event =
    FileOpen h5file string
  | CreateDataset dset "int list" "int list option"
  | CreateAttr real
  | WriteCell dset int int profile
  | WriteModel_yx int int "real list list"
  | WriteModel_cyx int int "real list list"
  | WriteLambda profile
  | FileClose h5file
  | Send nat to_agent
  | RecvDone nat

text \<open>
  The attributes of an \<^verbatim>\<open>Iterator\<close> object. An attribute that has not been assigned
  yet is \<open>None\<close>; reading it raises \<^verbatim>\<open>AttributeError\<close>. The logger and the progress
  telemetry (\<^verbatim>\<open>last_sent\<close>, \<^verbatim>\<open>last_received\<close>, the progress bar) are left out.
\<close>

record iterator =
  use_mpi :: bool
  self_size :: "nat option"
  self_rank :: nat
  self_batch :: int
  stop_after_n_batches :: "int option"
  self_model :: "sir_model option"
  self_cubes :: "cubes option"
  self_n_pixels :: "int option"
  self_n_batches :: "int option"
  f_stokes_out :: "string option"
  f_model_out :: "string option"

text \<open>What the MPI runtime tells the constructor.\<close>

record mpi_env =
  mpi_available :: bool
  comm_size :: nat
  comm_rank :: nat

section \<open>The constructor, \<^verbatim>\<open>get_rank\<close> and \<^verbatim>\<open>use_model\<close>\<close>

text \<open>
  \<^verbatim>\<open>__init__\<close> (lines 21 to 49). It is given the trace of store events so far and
  returns it with its result.
\<close>

definition init ::
  "mpi_env \<Rightarrow> event list \<Rightarrow> bool \<Rightarrow> int \<Rightarrow> int option \<Rightarrow> (py_error + iterator) \<times> event list"
where
  "init env tr use_mpi_arg batch_arg n_batches_arg =
     (if use_mpi_arg then
        (if \<not> mpi_available env then (Inl NoMPIException, tr)
         else if comm_size env = 1 then (Inl NoAgentsException, tr)
         else (Inr \<lparr>use_mpi = True, self_size = Some (comm_size env),
                    self_rank = comm_rank env, self_batch = batch_arg,
                    stop_after_n_batches = n_batches_arg, self_model = None,
                    self_cubes = None, self_n_pixels = None, self_n_batches = None,
                    f_stokes_out = None, f_model_out = None\<rparr>, tr))
      else (Inr \<lparr>use_mpi = False, self_size = None, self_rank = 0, self_batch = batch_arg,
                 stop_after_n_batches = n_batches_arg, self_model = None,
                 self_cubes = None, self_n_pixels = None, self_n_batches = None,
                 f_stokes_out = None, f_model_out = None\<rparr>, tr))"

text \<open>
  \<^verbatim>\<open>get_rank\<close> (lines 51 to 55). The message of its exception formats the unbound
  name \<^verbatim>\<open>size\<close>, so what is raised is a \<^verbatim>\<open>NameError\<close>.
\<close>

definition get_rank :: "iterator \<Rightarrow> int \<Rightarrow> py_error + nat" where
  "get_rank it n_agents =
     (if use_mpi it then
        (case self_size it of
           None \<Rightarrow> Inl AttributeError
         | Some sz \<Rightarrow> if n_agents \<ge> int sz then Inl NameError else Inr (self_rank it))
      else Inr (self_rank it))"

text \<open>
  \<^verbatim>\<open>use_model\<close> (lines 57 to 83): rank 0 and the serial process keep the model they are
  given; an agent keeps the model that rank 0 broadcasts, here \<open>root_model\<close>.
\<close>

definition use_model :: "iterator \<Rightarrow> sir_model option \<Rightarrow> sir_model option \<Rightarrow> iterator" where
  "use_model it model_arg root_model =
     (if use_mpi it then
        (if self_rank it = 0 then it\<lparr>self_model := model_arg\<rparr>
         else it\<lparr>self_model := root_model\<rparr>)
      else it\<lparr>self_model := model_arg\<rparr>)"

section \<open>The output store of both paths\<close>

text \<open>
  \<^verbatim>\<open>create_dataset(name, shape, chunks=...)\<close> of h5py (not part of the repository)
  raises \<^verbatim>\<open>ValueError\<close> when the chunk shape exceeds the data shape in some dimension;
  a chunk extent must also be positive.
\<close>

definition chunks_ok :: "int list \<Rightarrow> int list \<Rightarrow> bool" where
  "chunks_ok shape chunks \<longleftrightarrow> list_all2 (\<lambda>dim chunk. 0 < chunk \<and> chunk \<le> dim) shape chunks"

text \<open>
  Lines 138 to 144 and, the same text, lines 257 to 263, when every dataset is accepted:
  the four channel datasets are created with chunks \<open>(64, 64, n_lambda_sir)\<close>.
\<close>

definition stokes_store_events :: "sir_model \<Rightarrow> event list" where
  "stokes_store_events m =
     [FileOpen F_stokes (output_file m),
      CreateDataset DS_I [model_ny m, model_nx m, n_lambda_sir m] (Some [64, 64, n_lambda_sir m]),
      CreateDataset DS_Q [model_ny m, model_nx m, n_lambda_sir m] (Some [64, 64, n_lambda_sir m]),
      CreateDataset DS_U [model_ny m, model_nx m, n_lambda_sir m] (Some [64, 64, n_lambda_sir m]),
      CreateDataset DS_V [model_ny m, model_nx m, n_lambda_sir m] (Some [64, 64, n_lambda_sir m]),
      CreateDataset DS_lambda [n_lambda_sir m] None,
      CreateAttr (lambda_zeropoint m)]"

text \<open>
  Lines 138 to 144 and 257 to 263 as they run: the file is opened, and the first
  \<^verbatim>\<open>create_dataset\<close> (line 139 or 258) raises \<^verbatim>\<open>ValueError\<close> when the grid is
  smaller than a chunk, that is when \<open>ny < 64\<close> or \<open>nx < 64\<close> (or there is no
  wavelength point). The four datasets have the same shape and chunks, so the others are
  accepted when the first is.
\<close>

definition create_stokes_store :: "sir_model \<Rightarrow> py_error option \<times> event list" where
  "create_stokes_store m =
     (if chunks_ok [model_ny m, model_nx m, n_lambda_sir m] [64, 64, n_lambda_sir m]
      then (None, stokes_store_events m)
      else (Some ValueError, [FileOpen F_stokes (output_file m)]))"

text \<open>Lines 147 to 151 of the serial path.\<close>

definition create_model_store_serial :: "sir_model \<Rightarrow> event list" where
  "create_model_store_serial m =
     (case interpolated_model_filename m of
        None \<Rightarrow> []
      | Some name \<Rightarrow>
          [FileOpen F_model name,
           CreateDataset DS_model [model_ny m, model_nx m, 7, n_tau m] None])"

text \<open>Lines 266 to 270 of the distributed path.\<close>

definition create_model_store_mpi :: "sir_model \<Rightarrow> event list" where
  "create_model_store_mpi m =
     (case interpolated_model_filename m of
        None \<Rightarrow> []
      | Some name \<Rightarrow>
          [FileOpen F_model name,
           CreateDataset DS_model [7, model_ny m, model_nx m, n_tau m] None])"

section \<open>The serial path: \<^verbatim>\<open>nonmpi_work\<close>\<close>

text \<open>Elementwise division of two profiles, \<^verbatim>\<open>self.vz[:,iy,ix] / self.rho[:,iy,ix]\<close>.\<close>

definition div_profile :: "profile \<Rightarrow> profile \<Rightarrow> profile" where
  "div_profile a b = map2 (/) a b"

text \<open>
  The body of the two loops (lines 157 to 176) for the pixel \<open>(iy, ix)\<close>. The state of the
  loop is the trace and the local variable \<^verbatim>\<open>stokes\<close>, unbound before the first pixel.
\<close>

definition nonmpi_pixel ::
  "sir_model \<Rightarrow> cubes option \<Rightarrow> bool \<Rightarrow> nat \<times> nat \<Rightarrow> event list \<times> stokes option \<Rightarrow>
     py_error option \<times> event list \<times> stokes option"
where
  "nonmpi_pixel m cs interpolate_model pix st =
     (case cs of
        None \<Rightarrow> (Some AttributeError, st)
      | Some c \<Rightarrow>
          (let iy = fst pix; ix = snd pix;
               vz = (if vz_type m = ''vz'' then cube_vz c iy ix
                     else div_profile (cube_vz c iy ix) (cube_rho c iy ix))
           in if interpolate_model then
                (let r = synth m [cube_T c iy ix, cube_P c iy ix, cube_rho c iy ix, vz,
                                  cube_Bx c iy ix, cube_By c iy ix, cube_Bz c iy ix,
                                  cube_tau500 c iy ix, cube_ne c iy ix] interpolate_model
                 in (None,
                     fst st @ [WriteModel_yx (int iy) (int ix) (snd r),
                               WriteCell DS_I (int iy) (int ix) (stokes_I (fst r)),
                               WriteCell DS_Q (int iy) (int ix) (stokes_Q (fst r)),
                               WriteCell DS_U (int iy) (int ix) (stokes_U (fst r)),
                               WriteCell DS_V (int iy) (int ix) (stokes_V (fst r))],
                     Some (fst r)))
              else
                (let r = synth m [cube_T c iy ix, cube_P c iy ix, cube_rho c iy ix,
                                  cube_vz c iy ix,
                                  cube_Bx c iy ix, cube_By c iy ix, cube_Bz c iy ix,
                                  cube_tau500 c iy ix, cube_ne c iy ix] interpolate_model
                 in (None,
                     fst st @ [WriteCell DS_I (int iy) (int ix) (stokes_I (fst r)),
                               WriteCell DS_Q (int iy) (int ix) (stokes_Q (fst r)),
                               WriteCell DS_U (int iy) (int ix) (stokes_U (fst r)),
                               WriteCell DS_V (int iy) (int ix) (stokes_V (fst r))],
                     Some (fst r)))))"

text \<open>
  The two nested loops of lines 154 and 155 visit the pixels \<open>(iy, ix)\<close> in raster order;
  an exception in the body ends the loops with the state reached.
\<close>

definition raster :: "int \<Rightarrow> int \<Rightarrow> (nat \<times> nat) list" where
  "raster ny nx = concat (map (\<lambda>iy. map (\<lambda>ix. (iy, ix)) [0..<nat nx]) [0..<nat ny])"

fun nonmpi_loop ::
  "sir_model \<Rightarrow> cubes option \<Rightarrow> bool \<Rightarrow> (nat \<times> nat) list \<Rightarrow> event list \<times> stokes option \<Rightarrow>
     py_error option \<times> event list \<times> stokes option"
where
  "nonmpi_loop m cs interpolate_model [] st = (None, st)"
| "nonmpi_loop m cs interpolate_model (pix # rest) st =
     (case nonmpi_pixel m cs interpolate_model pix st of
        (Some e, st') \<Rightarrow> (Some e, st')
      | (None, st') \<Rightarrow> nonmpi_loop m cs interpolate_model rest st')"

text \<open>
  \<^verbatim>\<open>nonmpi_work\<close> (lines 85 to 181). It returns the exception raised, if any, with the
  iterator and the trace as they are at that moment. \<^verbatim>\<open>rangex\<close> and \<^verbatim>\<open>rangey\<close> are
  parameters of the method that its body never reads. The physics model is taken to
  return arrays of the extents that the datasets expect.
\<close>

definition nonmpi_work ::
  "iterator \<Rightarrow> event list \<Rightarrow> (int \<times> int) option \<Rightarrow> (int \<times> int) option \<Rightarrow>
     py_error option \<times> iterator \<times> event list"
where
  "nonmpi_work it tr rangex rangey =
     (case self_model it of
        None \<Rightarrow> (Some AttributeError, it, tr)
      | Some m \<Rightarrow>
          (let it1 = (if atmosphere_type m = ''MURAM''
                      then it\<lparr>self_cubes := Some (muram_cubes m),
                              self_n_pixels := Some (model_nx m * model_ny m)\<rparr>
                      else it);
               it2 = it1\<lparr>f_stokes_out := Some (output_file m)\<rparr>
           in case create_stokes_store m of
                (Some e, evs) \<Rightarrow> (Some e, it2, tr @ evs)
              | (None, evs) \<Rightarrow>
                  (let tr2 = tr @ evs;
                       interpolate_model = (interpolated_model_filename m \<noteq> None);
                       it3 = (case interpolated_model_filename m of
                                None \<Rightarrow> it2
                              | Some name \<Rightarrow> it2\<lparr>f_model_out := Some name\<rparr>);
                       tr3 = tr2 @ create_model_store_serial m
                   in case nonmpi_loop m (self_cubes it3) interpolate_model
                             (raster (model_ny m) (model_nx m)) (tr3, None) of
                        (Some e, tr4, s) \<Rightarrow> (Some e, it3, tr4)
                      | (None, tr4, None) \<Rightarrow> (Some UnboundLocalError, it3, tr4)
                      | (None, tr4, Some s) \<Rightarrow>
                          (let tr5 = tr4 @ [WriteLambda (stokes_lambda s), FileClose F_stokes]
                           in case f_model_out it3 of
                                None \<Rightarrow> (Some AttributeError, it3, tr5)
                              | Some name \<Rightarrow> (None, it3, tr5 @ [FileClose F_model])))))"

section \<open>Reading a trace\<close>

text \<open>Whether an event assigns the spectrum of the cell \<open>(y, x)\<close> of the dataset \<open>d\<close>.\<close>

fun writes_cell :: "dset \<Rightarrow> int \<Rightarrow> int \<Rightarrow> event \<Rightarrow> bool" where
  "writes_cell d y x (WriteCell d' y' x' row) = (d' = d \<and> y' = y \<and> x' = x)"
| "writes_cell d y x _ = False"

fun is_cell_write :: "event \<Rightarrow> bool" where
  "is_cell_write (WriteCell d y x row) = True"
| "is_cell_write _ = False"

text \<open>The shapes with which the resampled-model dataset is created in a trace.\<close>

fun model_dataset_shapes :: "event list \<Rightarrow> int list list" where
  "model_dataset_shapes [] = []"
| "model_dataset_shapes (CreateDataset DS_model shape chunks # tr) =
     shape # model_dataset_shapes tr"
| "model_dataset_shapes (e # tr) = model_dataset_shapes tr"

section \<open>Concrete inputs\<close>

text \<open>
  A stand-in for the physics model, for evaluating runs: the I spectrum of a pixel is the
  velocity profile that the model is handed, Q is the density profile, and the batched
  entry point does pixel by pixel what the single-pixel entry point does.
\<close>

definition example_synth :: "profile list \<Rightarrow> bool \<Rightarrow> stokes \<times> real list list" where
  "example_synth cols flag =
     (\<lparr>stokes_lambda = [500], stokes_I = cols ! 3, stokes_Q = cols ! 2,
       stokes_U = [0], stokes_V = [0]\<rparr>, [cols ! 0])"

definition example_synth2d ::
  "profile list list \<Rightarrow> bool \<Rightarrow> stokes list \<times> real list list list" where
  "example_synth2d slabs flag =
     (map (\<lambda>i. fst (example_synth (map (\<lambda>slab. slab ! i) slabs) flag)) [0..<length (slabs ! 0)],
      map (\<lambda>i. snd (example_synth (map (\<lambda>slab. slab ! i) slabs) flag)) [0..<length (slabs ! 0)])"

definition example_cubes :: cubes where
  "example_cubes =
     \<lparr>cube_T = (\<lambda>y x. [5000]), cube_P = (\<lambda>y x. [1]), cube_rho = (\<lambda>y x. [2]),
      cube_vz = (\<lambda>y x. [6]), cube_Bx = (\<lambda>y x. [0]), cube_By = (\<lambda>y x. [0]),
      cube_Bz = (\<lambda>y x. [0]), cube_tau500 = (\<lambda>y x. [1]), cube_ne = (\<lambda>y x. [1])\<rparr>"

text \<open>
  A model of \<open>nx\<close> by \<open>ny\<close> pixels whose velocity file holds momentum (so that
  \<^verbatim>\<open>vz_type\<close> is not \<^verbatim>\<open>'vz'\<close>), with or without a file for the resampled model.
\<close>

definition example_model :: "int \<Rightarrow> int \<Rightarrow> string option \<Rightarrow> sir_model" where
  "example_model nx ny interp =
     \<lparr>atmosphere_type = ''MURAM'', model_nx = nx, model_ny = ny, n_lambda_sir = 1,
      n_tau = 1, output_file = ''out.h5'', interpolated_model_filename = interp,
      lambda_zeropoint = 0, vz_type = ''vzrho'', muram_cubes = example_cubes,
      synth = example_synth, synth2d = example_synth2d\<rparr>"

definition serial_iterator :: "sir_model \<Rightarrow> iterator" where
  "serial_iterator m =
     \<lparr>use_mpi = False, self_size = None, self_rank = 0, self_batch = 1,
      stop_after_n_batches = None, self_model = Some m,
      self_cubes = None, self_n_pixels = None, self_n_batches = None,
      f_stokes_out = None, f_model_out = None\<rparr>"

section \<open>The distributed path: \<^verbatim>\<open>mpi_master_work\<close> and \<^verbatim>\<open>mpi_agents_work\<close>\<close>

text \<open>
  Indexing an axis of length \<open>n\<close> with numpy: an index is accepted when
  \<open>-n \<le> i < n\<close>, a negative one counts from the end, any other raises
  \<^verbatim>\<open>IndexError\<close>.
\<close>

definition index_ok :: "int \<Rightarrow> int \<Rightarrow> bool" where
  "index_ok n i \<longleftrightarrow> - n \<le> i \<and> i < n"

definition norm_index :: "int \<Rightarrow> int \<Rightarrow> nat" where
  "norm_index n i = (if i < 0 then nat (n + i) else nat i)"

text \<open>
  \<^verbatim>\<open>cube[:, iy, ix]\<close> for two index arrays: the profiles of the pixels
  \<open>(iy[k], ix[k])\<close>, one per pixel.
\<close>

definition cube_slice ::
  "int \<Rightarrow> int \<Rightarrow> (nat \<Rightarrow> nat \<Rightarrow> profile) \<Rightarrow> int list \<Rightarrow> int list \<Rightarrow> py_error + profile list"
where
  "cube_slice ny nx c iy ix =
     (if list_all (index_ok ny) iy \<and> list_all (index_ok nx) ix
      then Inr (map2 (\<lambda>y x. c (norm_index ny y) (norm_index nx x)) iy ix)
      else Inl IndexError)"

text \<open>
  Lines 296 to 303: the nine arrays of a task, the velocity first. Every slice uses the
  same two index arrays.
\<close>

definition task_slices ::
  "sir_model \<Rightarrow> cubes option \<Rightarrow> int list \<Rightarrow> int list \<Rightarrow> py_error + profile list list"
where
  "task_slices m cs iy ix =
     (case cs of
        None \<Rightarrow> Inl AttributeError
      | Some c \<Rightarrow>
          (let sl = (\<lambda>cube. cube_slice (model_ny m) (model_nx m) cube iy ix)
           in case sl (cube_vz c) of
                Inl e \<Rightarrow> Inl e
              | Inr vz0 \<Rightarrow>
                  (case sl (cube_rho c) of
                     Inl e \<Rightarrow> Inl e
                   | Inr rho \<Rightarrow>
                       (let vz = (if vz_type m = ''vz'' then vz0 else map2 div_profile vz0 rho)
                        in case (sl (cube_T c), sl (cube_P c), sl (cube_Bx c), sl (cube_By c),
                                 sl (cube_Bz c), sl (cube_tau500 c), sl (cube_ne c)) of
                             (Inr T, Inr P, Inr Bx, Inr By, Inr Bz, Inr tau, Inr ne) \<Rightarrow>
                               Inr [T, P, rho, vz, Bx, By, Bz, tau, ne]
                           | _ \<Rightarrow> Inl IndexError))))"

text \<open>
  One agent: where it stands in the loop of \<^verbatim>\<open>mpi_agents_work\<close> (about to send READY at
  line 358, blocked in the receive of line 359, or past its final send of line 385), the
  messages it has sent to rank 0 that rank 0 has not received yet, and the messages sent
  to it that it has not received yet. Messages between two processes arrive in the order
  in which they were sent. Agent \<open>k\<close> of the list of agents is the process of rank
  \<open>k + 1\<close>.
\<close>

datatype agent_pc = SendReady | Receive | Exited

record agent =
  pc :: agent_pc
  outbox :: "to_master list"
  inbox :: "to_agent list"

datatype run_status = Dispatching | Finished | Raised py_error

text \<open>
  The coordinator inside and after its dispatch loop: what it reads (the model, the
  cubes, the partition, the interpolation flag, the number of workers), its local
  variables \<^verbatim>\<open>task_index\<close>, \<^verbatim>\<open>closed_workers\<close> and \<^verbatim>\<open>stokes\<close> (unbound until the first
  result is received), the trace, and the agents with their message queues.
\<close>

record sys =
  sys_model :: sir_model
  sys_cubes :: "cubes option"
  sys_partition :: partition
  interpolate_model :: bool
  num_workers :: int
  task_index :: nat
  closed_workers :: nat
  stokes_var :: "stokes list option"
  status :: run_status
  trace :: "event list"
  agents :: "agent list"

text \<open>
  Lines 198 to 280 of \<^verbatim>\<open>mpi_master_work\<close>: loading, partition, store creation and the
  initial values of the loop. The result is the exception raised, with the trace at that
  moment, or the state in which the dispatch loop is entered; and the iterator as it is
  at that moment.
\<close>

definition mpi_master_setup ::
  "iterator \<Rightarrow> event list \<Rightarrow> (int \<times> int) option \<Rightarrow> (int \<times> int) option \<Rightarrow>
     (py_error \<times> event list + sys) \<times> iterator"
where
  "mpi_master_setup it tr rangex rangey =
     (case self_model it of
        None \<Rightarrow> (Inl (AttributeError, tr), it)
      | Some m \<Rightarrow>
          (let it1 = (if atmosphere_type m = ''MURAM''
                      then it\<lparr>self_cubes := Some (muram_cubes m)\<rparr> else it);
               n = int (length (axis_coords rangex (model_nx m))) *
                   int (length (axis_coords rangey (model_ny m)));
               it2 = it1\<lparr>self_n_pixels := Some n\<rparr>
           in case make_partition (model_nx m) (model_ny m) rangex rangey (self_batch it) of
                Inl e \<Rightarrow>
                  (Inl (e, tr), if e = ZeroDivisionError then it2
                                else it2\<lparr>self_n_batches := Some (n div self_batch it)\<rparr>)
              | Inr p \<Rightarrow>
                  (let it3 = it2\<lparr>self_n_batches := Some (p_n_batches p),
                                 f_stokes_out := Some (output_file m)\<rparr>
                   in case create_stokes_store m of
                        (Some e, evs) \<Rightarrow> (Inl (e, tr @ evs), it3)
                      | (None, evs) \<Rightarrow>
                          (let it4 = (case interpolated_model_filename m of
                                        None \<Rightarrow> it3
                                      | Some name \<Rightarrow> it3\<lparr>f_model_out := Some name\<rparr>);
                               tr4 = tr @ evs @ create_model_store_mpi m
                           in case self_size it of
                                None \<Rightarrow> (Inl (AttributeError, tr4), it4)
                              | Some sz \<Rightarrow>
                                  (Inr \<lparr>sys_model = m, sys_cubes = self_cubes it4,
                                        sys_partition = p,
                                        interpolate_model =
                                          (interpolated_model_filename m \<noteq> None),
                                        num_workers = int sz - 1, task_index = 0,
                                        closed_workers = 0,
                                        stokes_var = None, status = Dispatching,
                                        trace = tr4,
                                        agents = replicate (nat (int sz - 1))
                                           \<lparr>pc = SendReady, outbox = [], inbox = []\<rparr>\<rparr>,
                                   it4)))))"

text \<open>
  A \<^verbatim>\<open>for i in range(...)\<close> loop whose body either raises or appends events.
\<close>

fun for_each ::
  "(nat \<Rightarrow> py_error + event list) \<Rightarrow> nat list \<Rightarrow> event list \<Rightarrow> py_error option \<times> event list"
where
  "for_each f [] tr = (None, tr)"
| "for_each f (i # rest) tr =
     (case f i of Inl e \<Rightarrow> (Some e, tr) | Inr evs \<Rightarrow> for_each f rest (tr @ evs))"

text \<open>The body of the loop of lines 324 and 325.\<close>

definition write_model_row ::
  "int list \<Rightarrow> int list \<Rightarrow> real list list list \<Rightarrow> nat \<Rightarrow> py_error + event list" where
  "write_model_row indX indY model i =
     (if i < length model \<and> i < length indY \<and> i < length indX
      then Inr [WriteModel_cyx (indY ! i) (indX ! i) (model ! i)]
      else Inl IndexError)"

text \<open>The body of the loop of lines 327 to 331.\<close>

definition write_stokes_rows ::
  "int list \<Rightarrow> int list \<Rightarrow> stokes list \<Rightarrow> nat \<Rightarrow> py_error + event list" where
  "write_stokes_rows indX indY st i =
     (if i < length st \<and> i < length indY \<and> i < length indX
      then Inr [WriteCell DS_I (indY ! i) (indX ! i) (stokes_I (st ! i)),
                WriteCell DS_Q (indY ! i) (indX ! i) (stokes_Q (st ! i)),
                WriteCell DS_U (indY ! i) (indX ! i) (stokes_U (st ! i)),
                WriteCell DS_V (indY ! i) (indX ! i) (stokes_V (st ! i))]
      else Inl IndexError)"

text \<open>
  Lines 288 to 313: the coordinator has received READY from agent \<open>w\<close>.
\<close>

definition master_ready :: "nat \<Rightarrow> sys \<Rightarrow> sys" where
  "master_ready w s =
     (if int (task_index s) < p_n_batches (sys_partition s) then
        (let ix = divX (sys_partition s) ! task_index s;
             iy = divY (sys_partition s) ! task_index s
         in case task_slices (sys_model s) (sys_cubes s) iy ix of
              Inl e \<Rightarrow> s\<lparr>status := Raised e\<rparr>
            | Inr slabs \<Rightarrow>
                (let t = \<lparr>t_index = task_index s, t_indX = ix, t_indY = iy,
                          t_interpolate = interpolate_model s, t_model = slabs\<rparr>
                 in s\<lparr>agents := (agents s)[w := (agents s ! w)
                                   \<lparr>inbox := inbox (agents s ! w) @ [START t]\<rparr>],
                       trace := trace s @ [Send w (START t)],
                       task_index := task_index s + 1\<rparr>))
      else s\<lparr>agents := (agents s)[w := (agents s ! w)\<lparr>inbox := inbox (agents s ! w) @ [EXIT]\<rparr>],
             trace := trace s @ [Send w EXIT]\<rparr>)"

text \<open>
  Lines 315 to 334: the coordinator has received the result \<open>r\<close>. The event
  \<open>RecvDone\<close> is the telemetry of line 333.
\<close>

definition master_done :: "result \<Rightarrow> sys \<Rightarrow> sys" where
  "master_done r s =
     (let s1 = s\<lparr>stokes_var := Some (r_stokes r)\<rparr>;
          rng = [0..<length (r_indX r)];
          m_out = (if interpolate_model s then
                     (case r_model r of
                        None \<Rightarrow> (Some KeyError, trace s)
                      | Some model \<Rightarrow>
                          for_each (write_model_row (r_indX r) (r_indY r) model) rng (trace s))
                   else (None, trace s))
      in case m_out of
           (Some e, tr1) \<Rightarrow> s1\<lparr>trace := tr1, status := Raised e\<rparr>
         | (None, tr1) \<Rightarrow>
             (case for_each (write_stokes_rows (r_indX r) (r_indY r) (r_stokes r)) rng tr1 of
                (Some e, tr2) \<Rightarrow> s1\<lparr>trace := tr2, status := Raised e\<rparr>
              | (None, tr2) \<Rightarrow> s1\<lparr>trace := tr2 @ [RecvDone (r_index r)]\<rparr>))"

text \<open>Lines 336 and 337.\<close>

definition master_exit :: "sys \<Rightarrow> sys" where
  "master_exit s = s\<lparr>closed_workers := closed_workers s + 1\<rparr>"

text \<open>Lines 339 to 342, after the loop.\<close>

definition master_finish :: "sys \<Rightarrow> sys" where
  "master_finish s =
     (case stokes_var s of
        None \<Rightarrow> s\<lparr>status := Raised UnboundLocalError\<rparr>
      | Some [] \<Rightarrow> s\<lparr>status := Raised IndexError\<rparr>
      | Some (s0 # rest) \<Rightarrow>
          s\<lparr>trace := trace s @ [WriteLambda (stokes_lambda s0), FileClose F_stokes] @
                     (if interpolate_model s then [FileClose F_model] else []),
            status := Finished\<rparr>)"

text \<open>
  Lines 363 to 381 of \<^verbatim>\<open>mpi_agents_work\<close>: the result that an agent computes for a
  task, with the model that rank 0 has broadcast.
\<close>

definition agent_compute :: "sir_model \<Rightarrow> task \<Rightarrow> result" where
  "agent_compute m t =
     (let out = synth2d m (t_model t) (t_interpolate t)
      in \<lparr>r_index = t_index t, r_indX = t_indX t, r_indY = t_indY t,
          r_stokes = fst out,
          r_model = (if t_interpolate t then Some (snd out) else None)\<rparr>)"

text \<open>
  The steps of the whole system. Which process moves next is not determined by the
  program, so a step is named by an action and is possible or not in a state:
  \<^item> \<open>AgentSendReady w\<close>: agent \<open>w\<close> executes line 358;
  \<^item> \<open>AgentReceive w\<close>: agent \<open>w\<close>, blocked at line 359, receives the oldest message
    sent to it and executes the loop body, including its send (lines 361 to 385);
  \<^item> \<open>MasterReceive w\<close>: the coordinator, in its loop (line 283 holds), receives the oldest
    message of agent \<open>w\<close> and handles it (lines 284 to 337);
  \<^item> \<open>MasterFinish\<close>: the condition of line 283 fails and the coordinator executes lines
    339 to 342.
  A send completes without waiting for its receiver.
\<close>

datatype action = AgentSendReady nat | AgentReceive nat | MasterReceive nat | MasterFinish

fun step :: "action \<Rightarrow> sys \<Rightarrow> sys option" where
  "step (AgentSendReady w) s =
     (if w < length (agents s) \<and> pc (agents s ! w) = SendReady
      then Some (s\<lparr>agents := (agents s)[w := (agents s ! w)
                     \<lparr>pc := Receive, outbox := outbox (agents s ! w) @ [READY]\<rparr>]\<rparr>)
      else None)"
| "step (AgentReceive w) s =
     (if w < length (agents s) \<and> pc (agents s ! w) = Receive
      then (case inbox (agents s ! w) of
              [] \<Rightarrow> None
            | START t # rest \<Rightarrow>
                Some (s\<lparr>agents := (agents s)[w := (agents s ! w)
                          \<lparr>pc := SendReady, inbox := rest,
                           outbox := outbox (agents s ! w) @ [DONE (agent_compute (sys_model s) t)]\<rparr>]\<rparr>)
            | EXIT # rest \<Rightarrow>
                Some (s\<lparr>agents := (agents s)[w := (agents s ! w)
                          \<lparr>pc := Exited, inbox := rest,
                           outbox := outbox (agents s ! w) @ [EXIT_ack]\<rparr>]\<rparr>))
      else None)"
| "step (MasterReceive w) s =
     (if status s = Dispatching \<and> int (closed_workers s) < num_workers s \<and> w < length (agents s)
      then (case outbox (agents s ! w) of
              [] \<Rightarrow> None
            | msg # rest \<Rightarrow>
                (let s1 = s\<lparr>agents := (agents s)[w := (agents s ! w)\<lparr>outbox := rest\<rparr>]\<rparr>
                 in case msg of
                      READY \<Rightarrow> Some (master_ready w s1)
                    | DONE r \<Rightarrow> Some (master_done r s1)
                    | EXIT_ack \<Rightarrow> Some (master_exit s1)))
      else None)"
| "step MasterFinish s =
     (if status s = Dispatching \<and> \<not> int (closed_workers s) < num_workers s
      then Some (master_finish s)
      else None)"

text \<open>A run: a sequence of steps, each possible in the state it starts from.\<close>

fun run :: "action list \<Rightarrow> sys \<Rightarrow> sys option" where
  "run [] s = Some s"
| "run (a # as) s = (case step a s of None \<Rightarrow> None | Some s' \<Rightarrow> run as s')"

text \<open>What a trace says about the messages of the coordinator and its results.\<close>

fun start_sends :: "event list \<Rightarrow> (nat \<times> task) list" where
  "start_sends [] = []"
| "start_sends (Send w (START t) # tr) = (w, t) # start_sends tr"
| "start_sends (e # tr) = start_sends tr"

fun exit_sends :: "event list \<Rightarrow> nat list" where
  "exit_sends [] = []"
| "exit_sends (Send w EXIT # tr) = w # exit_sends tr"
| "exit_sends (e # tr) = exit_sends tr"

fun received :: "event list \<Rightarrow> nat list" where
  "received [] = []"
| "received (RecvDone i # tr) = i # received tr"
| "received (e # tr) = received tr"

fun is_send :: "event \<Rightarrow> bool" where
  "is_send (Send w msg) = True"
| "is_send _ = False"

definition mpi_iterator :: "nat \<Rightarrow> int \<Rightarrow> sir_model \<Rightarrow> iterator" where
  "mpi_iterator sz b m =
     \<lparr>use_mpi = True, self_size = Some sz, self_rank = 0, self_batch = b,
      stop_after_n_batches = None, self_model = Some m,
      self_cubes = None, self_n_pixels = None, self_n_batches = None,
      f_stokes_out = None, f_model_out = None\<rparr>"

section \<open>Invariants of the dispatch protocol\<close>

text \<open>The cells \<open>(y, x)\<close> of a dataset that a trace assigns, in order.\<close>

fun cells :: "dset \<Rightarrow> event list \<Rightarrow> (int \<times> int) list" where
  "cells d [] = []"
| "cells d (WriteCell d' y x row # tr) = (if d' = d then (y, x) # cells d tr else cells d tr)"
| "cells d (e # tr) = cells d tr"

text \<open>The spectra that a trace assigns to a dataset, with their cells.\<close>

fun rows_written :: "dset \<Rightarrow> event list \<Rightarrow> (int \<times> int \<times> profile) list" where
  "rows_written d [] = []"
| "rows_written d (WriteCell d' y x row # tr) =
     (if d' = d then (y, x, row) # rows_written d tr else rows_written d tr)"
| "rows_written d (e # tr) = rows_written d tr"

text \<open>The cells of batch \<open>i\<close>, as the coordinator addresses them when it writes.\<close>

definition batch_cells :: "partition \<Rightarrow> nat \<Rightarrow> (int \<times> int) list" where
  "batch_cells p i = zip (divY p ! i) (divX p ! i)"

text \<open>A task or a result that is under way carries the coordinates of its batch.\<close>

definition task_ok :: "partition \<Rightarrow> nat \<Rightarrow> task \<Rightarrow> bool" where
  "task_ok p ti t \<longleftrightarrow>
     t_index t < ti \<and> t_indX t = divX p ! t_index t \<and> t_indY t = divY p ! t_index t"

definition result_ok :: "partition \<Rightarrow> nat \<Rightarrow> result \<Rightarrow> bool" where
  "result_ok p ti r \<longleftrightarrow>
     r_index r < ti \<and> r_indX r = divX p ! r_index r \<and> r_indY r = divY p ! r_index r"

text \<open>
  The eight situations of an agent and its two queues that the protocol allows.
\<close>

definition agent_ok :: "partition \<Rightarrow> nat \<Rightarrow> agent \<Rightarrow> bool" where
  "agent_ok p ti a \<longleftrightarrow>
     (pc a = SendReady \<and> outbox a = [] \<and> inbox a = []) \<or>
     (\<exists>r. pc a = SendReady \<and> outbox a = [DONE r] \<and> inbox a = [] \<and> result_ok p ti r) \<or>
     (pc a = Receive \<and> outbox a = [READY] \<and> inbox a = []) \<or>
     (\<exists>r. pc a = Receive \<and> outbox a = [DONE r, READY] \<and> inbox a = [] \<and> result_ok p ti r) \<or>
     (\<exists>t. pc a = Receive \<and> outbox a = [] \<and> inbox a = [START t] \<and> task_ok p ti t) \<or>
     (pc a = Receive \<and> outbox a = [] \<and> inbox a = [EXIT]) \<or>
     (pc a = Exited \<and> outbox a = [EXIT_ack] \<and> inbox a = []) \<or>
     (pc a = Exited \<and> outbox a = [] \<and> inbox a = [])"

text \<open>An agent to which EXIT has been sent; an agent whose acknowledgement was received.\<close>

definition got_exit :: "agent \<Rightarrow> bool" where
  "got_exit a \<longleftrightarrow> inbox a = [EXIT] \<or> pc a = Exited"

definition agent_closed :: "agent \<Rightarrow> bool" where
  "agent_closed a \<longleftrightarrow> pc a = Exited \<and> outbox a = []"

text \<open>The batch indices of the tasks and results in the queues of an agent.\<close>

fun inflight_in :: "to_agent list \<Rightarrow> nat list" where
  "inflight_in [] = []"
| "inflight_in (START t # ms) = t_index t # inflight_in ms"
| "inflight_in (EXIT # ms) = inflight_in ms"

fun inflight_out :: "to_master list \<Rightarrow> nat list" where
  "inflight_out [] = []"
| "inflight_out (DONE r # ms) = r_index r # inflight_out ms"
| "inflight_out (READY # ms) = inflight_out ms"
| "inflight_out (EXIT_ack # ms) = inflight_out ms"

definition inflight :: "agent \<Rightarrow> nat list" where
  "inflight a = inflight_in (inbox a) @ inflight_out (outbox a)"

text \<open>
  What holds of the partition throughout: \<^verbatim>\<open>divX\<close> and \<^verbatim>\<open>divY\<close> have \<^verbatim>\<open>n_batches\<close>
  pieces, of the same lengths.
\<close>

definition partition_ok :: "partition \<Rightarrow> bool" where
  "partition_ok p \<longleftrightarrow>
     0 < p_n_batches p \<and>
     length (divX p) = nat (p_n_batches p) \<and> length (divY p) = nat (p_n_batches p) \<and>
     (\<forall>i < nat (p_n_batches p). length (divX p ! i) = length (divY p ! i))"

text \<open>The agents and the cursor: the shape of every agent, and EXIT only after the last batch.\<close>

definition shape_inv :: "sys \<Rightarrow> bool" where
  "shape_inv s \<longleftrightarrow>
     partition_ok (sys_partition s) \<and>
     length (agents s) = nat (num_workers s) \<and>
     (\<forall>w < length (agents s). agent_ok (sys_partition s) (task_index s) (agents s ! w)) \<and>
     int (task_index s) \<le> p_n_batches (sys_partition s) \<and>
     ((\<exists>w < length (agents s). got_exit (agents s ! w)) \<longrightarrow>
        int (task_index s) = p_n_batches (sys_partition s))"

text \<open>The counter of agent_closed workers counts the agents whose acknowledgement was received.\<close>

definition closed_inv :: "sys \<Rightarrow> bool" where
  "closed_inv s \<longleftrightarrow> closed_workers s = length (filter agent_closed (agents s))"

text \<open>
  The messages sent: the START messages carry the batches \<open>0, 1, ...\<close> up to the cursor,
  in this order, and an agent has been sent EXIT once or never.
\<close>

definition sends_inv :: "sys \<Rightarrow> bool" where
  "sends_inv s \<longleftrightarrow>
     map (\<lambda>wt. t_index (snd wt)) (start_sends (trace s)) = [0..<task_index s] \<and>
     (\<forall>wt \<in> set (start_sends (trace s)).
        fst wt < length (agents s) \<and> task_ok (sys_partition s) (task_index s) (snd wt)) \<and>
     (\<forall>w. count_list (exit_sends (trace s)) w =
        (if w < length (agents s) \<and> got_exit (agents s ! w) then 1 else 0))"

text \<open>
  The results: every batch up to the cursor is under way or has been received, never
  both and never twice; the cells written are those of the batches received; the store
  is open.
\<close>

definition results_inv :: "sys \<Rightarrow> bool" where
  "results_inv s \<longleftrightarrow>
     mset (received (trace s)) + mset (concat (map inflight (agents s))) =
       mset [0..<task_index s] \<and>
     (\<forall>d \<in> {DS_I, DS_Q, DS_U, DS_V}.
        cells d (trace s) = concat (map (batch_cells (sys_partition s)) (received (trace s)))) \<and>
     FileClose F_stokes \<notin> set (trace s) \<and>
     (stokes_var s = None \<longleftrightarrow> received (trace s) = [])"

definition dispatch_inv :: "sys \<Rightarrow> bool" where
  "dispatch_inv s \<longleftrightarrow> shape_inv s \<and> closed_inv s \<and> sends_inv s \<and> results_inv s"

text \<open>Events that are neither a message, nor the receipt of a result, nor the closing of the store.\<close>

definition store_only :: "event list \<Rightarrow> bool" where
  "store_only evs \<longleftrightarrow>
     start_sends evs = [] \<and> exit_sends evs = [] \<and> received evs = [] \<and>
     FileClose F_stokes \<notin> set evs"

text \<open>
  A run of three agents and seven batches of one pixel each, the agents taking turns: the
  scenario of the specification.
\<close>

definition three_agents_seven_batches :: "action list" where
  "three_agents_seven_batches =
    [AgentSendReady 0, MasterReceive 0, AgentSendReady 1, MasterReceive 1,
     AgentSendReady 2, MasterReceive 2, AgentReceive 0, MasterReceive 0, AgentReceive 1,
     MasterReceive 1, AgentReceive 2, MasterReceive 2, AgentSendReady 0, MasterReceive 0,
     AgentSendReady 1, MasterReceive 1, AgentSendReady 2, MasterReceive 2, AgentReceive 0,
     MasterReceive 0, AgentReceive 1, MasterReceive 1, AgentReceive 2, MasterReceive 2,
     AgentSendReady 0, MasterReceive 0, AgentSendReady 1, MasterReceive 1,
     AgentSendReady 2, MasterReceive 2, AgentReceive 0, MasterReceive 0, AgentReceive 1,
     MasterReceive 1, AgentReceive 2, MasterReceive 2, AgentSendReady 0, MasterReceive 0,
     AgentReceive 0, MasterReceive 0, MasterFinish]"

text \<open>A run of one agent and two batches.\<close>

definition one_agent_two_batches :: "action list" where
  "one_agent_two_batches =
    [AgentSendReady 0, MasterReceive 0, AgentReceive 0, MasterReceive 0,
     AgentSendReady 0, MasterReceive 0, AgentReceive 0, MasterReceive 0,
     AgentSendReady 0, MasterReceive 0, AgentReceive 0, MasterReceive 0, MasterFinish]"

text \<open>A run of one agent and one batch.\<close>

definition one_agent_one_batch :: "action list" where
  "one_agent_one_batch =
    [AgentSendReady 0, MasterReceive 0, AgentReceive 0, MasterReceive 0,
     AgentSendReady 0, MasterReceive 0, AgentReceive 0, MasterReceive 0, MasterFinish]"

text \<open>
  One agent computes one batch and announces that it is ready for a second.
\<close>

definition one_batch_then_ready :: "action list" where
  "one_batch_then_ready =
    [AgentSendReady 0, MasterReceive 0, AgentReceive 0, MasterReceive 0, AgentSendReady 0]"

text \<open>Whether the oldest message of a queue to the coordinator is READY.\<close>

fun next_is_ready :: "to_master list \<Rightarrow> bool" where
  "next_is_ready (READY # ms) = True"
| "next_is_ready _ = False"

text \<open>Whether every coordinate of batch \<open>i\<close> is a valid index of its axis of the cubes.\<close>

definition batch_in_bounds :: "sir_model \<Rightarrow> partition \<Rightarrow> nat \<Rightarrow> bool" where
  "batch_in_bounds m p i \<longleftrightarrow>
     list_all (index_ok (model_ny m)) (divY p ! i) \<and>
     list_all (index_ok (model_nx m)) (divX p ! i)"

section \<open>A bound on the length of a run\<close>

text \<open>
  Every step uses up something: a message changes into a cheaper one or is consumed, an
  agent moves on in its loop, a batch is handed out, the coordinator leaves its loop.
\<close>

fun to_master_weight :: "to_master \<Rightarrow> nat" where
  "to_master_weight READY = 2"
| "to_master_weight (DONE r) = 1"
| "to_master_weight EXIT_ack = 1"

fun to_agent_weight :: "to_agent \<Rightarrow> nat" where
  "to_agent_weight (START t) = 5"
| "to_agent_weight EXIT = 1"

fun pc_weight :: "agent_pc \<Rightarrow> nat" where
  "pc_weight SendReady = 4"
| "pc_weight Receive = 1"
| "pc_weight Exited = 0"

definition agent_weight :: "agent \<Rightarrow> nat" where
  "agent_weight a =
     pc_weight (pc a) + sum_list (map to_master_weight (outbox a)) +
     sum_list (map to_agent_weight (inbox a))"

definition potential :: "sys \<Rightarrow> nat" where
  "potential s =
     (if status s = Dispatching then 1 else 0) +
     4 * (nat (p_n_batches (sys_partition s)) - task_index s) +
     sum_list (map agent_weight (agents s))"

section \<open>Properties of the partitioner\<close>

lemma set_arange: "set (arange a b) = {a..<b}"
  by (auto simp: arange_def)

lemma distinct_arange: "distinct (arange a b)"
  by (simp add: arange_def)

lemma set_axis_coords: "set (axis_coords r n) = requested_axis r n"
  by (auto simp: axis_coords_def requested_axis_def set_arange split: option.splits)

lemma distinct_axis_coords: "distinct (axis_coords r n)"
  by (simp add: axis_coords_def distinct_arange split: option.splits prod.splits)

lemma length_meshgrid_X: "length (meshgrid_X x y) = length x * length y"
  by (induction y) (simp_all add: meshgrid_X_def)

lemma length_meshgrid_Y: "length (meshgrid_Y x y) = length x * length y"
  by (induction y) (simp_all add: meshgrid_Y_def)

lemma zip_meshgrid:
  "zip (meshgrid_X x y) (meshgrid_Y x y) = concat (map (\<lambda>yv. map (\<lambda>xv. (xv, yv)) x) y)"
proof (induction y)
  case Nil
  show ?case by (simp add: meshgrid_X_def meshgrid_Y_def)
next
  case (Cons yv y)
  have row: "zip x (map (\<lambda>_. yv) x) = map (\<lambda>xv. (xv, yv)) x"
    by (induction x) simp_all
  from Cons show ?case
    by (simp add: meshgrid_X_def meshgrid_Y_def row)
qed

lemma set_zip_meshgrid: "set (zip (meshgrid_X x y) (meshgrid_Y x y)) = set x \<times> set y"
  by (auto simp: zip_meshgrid)

lemma distinct_rows:
  "distinct x \<Longrightarrow> distinct y \<Longrightarrow> distinct (concat (map (\<lambda>yv. map (\<lambda>xv. (xv, yv)) x) y))"
  by (induction y) (auto simp: distinct_map inj_on_def)

lemma distinct_zip_meshgrid:
  "distinct x \<Longrightarrow> distinct y \<Longrightarrow> distinct (zip (meshgrid_X x y) (meshgrid_Y x y))"
  by (simp add: zip_meshgrid distinct_rows)

lemma length_cut_sections: "length (cut_sections ks xs) = length ks"
  by (induction ks arbitrary: xs) simp_all

lemma concat_cut_sections: "concat (cut_sections ks xs) = take (sum_list ks) xs"
  by (induction ks arbitrary: xs) (simp_all add: take_add)

lemma cut_sections_zip:
  "cut_sections ks (zip xs ys) = map2 zip (cut_sections ks xs) (cut_sections ks ys)"
  by (induction ks arbitrary: xs ys) (simp_all add: take_zip drop_zip)

lemma length_cut_sections_nth:
  "sum_list ks \<le> length xs \<Longrightarrow> i < length ks \<Longrightarrow> length (cut_sections ks xs ! i) = ks ! i"
proof (induction ks arbitrary: xs i)
  case Nil
  then show ?case by simp
next
  case (Cons k ks)
  then show ?case by (cases i) simp_all
qed

lemma sum_list_section_sizes: "0 < n \<Longrightarrow> sum_list (section_sizes l n) = l"
proof -
  assume n: "0 < n"
  have le: "l mod n \<le> n" using n by (simp add: less_imp_le)
  have "sum_list (section_sizes l n) = (l mod n) * (l div n + 1) + (n - l mod n) * (l div n)"
    by (simp add: section_sizes_def sum_list_replicate)
  also have "\<dots> = (l mod n + (n - l mod n)) * (l div n) + l mod n"
    by (simp add: algebra_simps)
  also have "\<dots> = n * (l div n) + l mod n"
    using le by simp
  also have "\<dots> = l" by simp
  finally show ?thesis .
qed

lemma length_section_sizes: "0 < n \<Longrightarrow> length (section_sizes l n) = n"
  by (simp add: section_sizes_def)

lemma section_sizes_nth:
  "0 < n \<Longrightarrow> i < n \<Longrightarrow> section_sizes l n ! i = (if i < l mod n then l div n + 1 else l div n)"
  by (auto simp: section_sizes_def nth_append)

lemma distinct_concat_nth_disjoint:
  "distinct (concat xss) \<Longrightarrow> i < j \<Longrightarrow> j < length xss \<Longrightarrow> set (xss ! i) \<inter> set (xss ! j) = {}"
proof (induction xss arbitrary: i j)
  case Nil
  then show ?case by simp
next
  case (Cons xs xss)
  show ?case
  proof (cases i)
    case 0
    with Cons.prems obtain j' where j': "j = Suc j'" "j' < length xss"
      by (cases j) auto
    from j'(2) have "xss ! j' \<in> set xss" by (rule nth_mem)
    then have "set (xss ! j') \<subseteq> set (concat xss)" by auto
    with Cons.prems(1) 0 j' show ?thesis by auto
  next
    case (Suc i')
    with Cons.prems obtain j' where j': "j = Suc j'" "i' < j'" "j' < length xss"
      by (cases j) auto
    with Cons.IH [of i' j'] Cons.prems(1) Suc show ?thesis by simp
  qed
qed

lemma make_partition_InrD:
  assumes "make_partition nx ny rangex rangey batch = Inr p"
  shows "batch \<noteq> 0"
    and "p_n_pixels p = int (length (axis_coords rangex nx)) * int (length (axis_coords rangey ny))"
    and "p_n_batches p = p_n_pixels p div batch"
    and "0 < p_n_batches p"
    and "divX p = cut_sections (section_sizes (nat (p_n_pixels p)) (nat (p_n_batches p)))
           (meshgrid_X (axis_coords rangex nx) (axis_coords rangey ny))"
    and "divY p = cut_sections (section_sizes (nat (p_n_pixels p)) (nat (p_n_batches p)))
           (meshgrid_Y (axis_coords rangex nx) (axis_coords rangey ny))"
  using assms
  by (auto simp: make_partition_def Let_def floordiv_def array_split_def
      length_meshgrid_X length_meshgrid_Y nat_mult_distrib
      split: if_splits sum.splits)

lemma batch_pixels_cut_sections:
  assumes "make_partition nx ny rangex rangey batch = Inr p" and "i < nat (p_n_batches p)"
  shows "batch_pixels p i =
    cut_sections (section_sizes (nat (p_n_pixels p)) (nat (p_n_batches p)))
      (zip (meshgrid_X (axis_coords rangex nx) (axis_coords rangey ny))
           (meshgrid_Y (axis_coords rangex nx) (axis_coords rangey ny))) ! i"
  using assms make_partition_InrD [OF assms(1)]
  by (simp add: batch_pixels_def cut_sections_zip length_cut_sections length_section_sizes)

lemma concat_batches:
  assumes "make_partition nx ny rangex rangey batch = Inr p"
  shows "concat (map (batch_pixels p) [0..<nat (p_n_batches p)]) =
     zip (meshgrid_X (axis_coords rangex nx) (axis_coords rangey ny))
         (meshgrid_Y (axis_coords rangex nx) (axis_coords rangey ny))"
proof -
  let ?ks = "section_sizes (nat (p_n_pixels p)) (nat (p_n_batches p))"
  let ?zs = "zip (meshgrid_X (axis_coords rangex nx) (axis_coords rangey ny))
         (meshgrid_Y (axis_coords rangex nx) (axis_coords rangey ny))"
  note D = make_partition_InrD [OF assms]
  have len: "length (cut_sections ?ks ?zs) = nat (p_n_batches p)"
    using D(4) by (simp add: length_cut_sections length_section_sizes)
  have "map (batch_pixels p) [0..<nat (p_n_batches p)] = map ((!) (cut_sections ?ks ?zs)) [0..<nat (p_n_batches p)]"
    using batch_pixels_cut_sections [OF assms] by simp
  also have "\<dots> = cut_sections ?ks ?zs"
    using len map_nth [of "cut_sections ?ks ?zs"] by simp
  finally have "concat (map (batch_pixels p) [0..<nat (p_n_batches p)]) = take (sum_list ?ks) ?zs"
    by (simp add: concat_cut_sections)
  moreover have "sum_list ?ks = length ?zs"
    using D(4) D(2) by (simp add: sum_list_section_sizes length_meshgrid_X length_meshgrid_Y nat_mult_distrib)
  ultimately show ?thesis by simp
qed

lemma length_axis_coords: "int (length (axis_coords r n)) = int (card (requested_axis r n))"
  by (simp add: axis_coords_def requested_axis_def arange_def split: option.splits prod.splits)

lemma n_pixels_card:
  "int (length (axis_coords rangex nx)) * int (length (axis_coords rangey ny)) =
     int (card (requested_pixels nx ny rangex rangey))"
  by (simp add: requested_pixels_def card_cartesian_product length_axis_coords)

text \<open>
  Claim C3. Whenever the partitioner of \<^verbatim>\<open>mpi_master_work\<close> produces batches (for a
  grid \<open>nx\<close> by \<open>ny\<close>, an optional sub-rectangle and a batch size), there are
  \<^verbatim>\<open>n_batches\<close> of them in \<^verbatim>\<open>divX\<close> and in \<^verbatim>\<open>divY\<close>, the union of their pixel sets
  is exactly the requested pixel set, two different batches share no pixel, and no batch
  holds a pixel twice.
\<close>

theorem partition_disjoint_and_complete:
  assumes "make_partition nx ny rangex rangey batch = Inr p"
  shows "length (divX p) = nat (p_n_batches p) \<and> length (divY p) = nat (p_n_batches p) \<and>
    (\<Union>i<nat (p_n_batches p). set (batch_pixels p i)) = requested_pixels nx ny rangex rangey \<and>
    (\<forall>i j. i < j \<and> j < nat (p_n_batches p) \<longrightarrow>
        set (batch_pixels p i) \<inter> set (batch_pixels p j) = {}) \<and>
    (\<forall>i < nat (p_n_batches p). distinct (batch_pixels p i))"
proof -
  let ?n = "nat (p_n_batches p)"
  let ?bs = "map (batch_pixels p) [0..<?n]"
  note D = make_partition_InrD [OF assms]
  have cat: "concat ?bs = zip (meshgrid_X (axis_coords rangex nx) (axis_coords rangey ny))
         (meshgrid_Y (axis_coords rangex nx) (axis_coords rangey ny))"
    by (rule concat_batches [OF assms])
  have lens: "length (divX p) = ?n" "length (divY p) = ?n"
    using D(4) by (simp_all add: D(5,6) length_cut_sections length_section_sizes)
  have "set (concat ?bs) = requested_pixels nx ny rangex rangey"
    by (simp only: cat set_zip_meshgrid set_axis_coords requested_pixels_def)
  moreover have "set (concat ?bs) = (\<Union>i<?n. set (batch_pixels p i))"
    by (auto simp: lessThan_atLeast0)
  ultimately have cover: "(\<Union>i<?n. set (batch_pixels p i)) = requested_pixels nx ny rangex rangey"
    by simp
  have dist: "distinct (concat ?bs)"
    by (simp only: cat distinct_zip_meshgrid distinct_axis_coords)
  have disj: "set (batch_pixels p i) \<inter> set (batch_pixels p j) = {}" if "i < j" "j < ?n" for i j
    using distinct_concat_nth_disjoint [OF dist, of i j] that by simp
  have each: "distinct (batch_pixels p i)" if "i < ?n" for i
  proof -
    from that have "batch_pixels p i \<in> set ?bs" by simp
    with dist show ?thesis by (meson distinct_concat_iff)
  qed
  from lens cover disj each show ?thesis by blast
qed

text \<open>
  The scenario of the specification: a grid of 4 by 4 and batch size 4 give 4 batches of 4
  pixels that cover the 16 pixels.
\<close>

theorem partition_disjoint_and_complete_witness:
  "make_partition 4 4 None None 4 =
      Inr \<lparr>p_n_pixels = 16, p_n_batches = 4,
           divX = [[0, 1, 2, 3], [0, 1, 2, 3], [0, 1, 2, 3], [0, 1, 2, 3]],
           divY = [[0, 0, 0, 0], [1, 1, 1, 1], [2, 2, 2, 2], [3, 3, 3, 3]]\<rparr> \<and>
   (\<Union>i<4. set (zip ([[0, 1, 2, 3], [0, 1, 2, 3], [0, 1, 2, 3], [0, 1, 2, 3]] ! i)
                      ([[0, 0, 0, 0], [1, 1, 1, 1], [2, 2, 2, 2], [3, 3, 3, 3]] ! i)))
     = requested_pixels 4 4 None None"
proof -
  have h: "make_partition 4 4 None None 4 =
      Inr \<lparr>p_n_pixels = 16, p_n_batches = 4,
           divX = [[0, 1, 2, 3], [0, 1, 2, 3], [0, 1, 2, 3], [0, 1, 2, 3]],
           divY = [[0, 0, 0, 0], [1, 1, 1, 1], [2, 2, 2, 2], [3, 3, 3, 3]]\<rparr>"
    by code_simp
  show ?thesis
    using h partition_disjoint_and_complete [OF h] by (simp add: batch_pixels_def)
qed

lemma make_partition_Inr:
  assumes "1 \<le> batch"
    and "batch \<le> int (length (axis_coords rangex nx)) * int (length (axis_coords rangey ny))"
  shows "\<exists>p. make_partition nx ny rangex rangey batch = Inr p"
proof -
  let ?n = "int (length (axis_coords rangex nx)) * int (length (axis_coords rangey ny))"
  from assms have "0 < ?n div batch"
    by (simp add: pos_imp_zdiv_pos_iff)
  with assms(1) show ?thesis
    by (simp add: make_partition_def Let_def floordiv_def array_split_def)
qed

lemma make_partition_Inl:
  "batch \<noteq> 0 \<Longrightarrow>
   batch < 1 \<or> int (length (axis_coords rangex nx)) * int (length (axis_coords rangey ny)) < batch \<Longrightarrow>
   make_partition nx ny rangex rangey batch = Inl ValueError"
proof -
  let ?n = "int (length (axis_coords rangex nx)) * int (length (axis_coords rangey ny))"
  assume b: "batch \<noteq> 0" and r: "batch < 1 \<or> ?n < batch"
  have n0: "0 \<le> ?n" by simp
  have "?n div batch \<le> 0"
  proof (cases "batch < 1")
    case True
    with b have "batch < 0" by simp
    with n0 show ?thesis by (simp add: div_nonneg_neg_le0)
  next
    case False
    with r have "?n < batch" by simp
    with n0 show ?thesis by (simp add: div_pos_pos_trivial)
  qed
  with b show ?thesis
    by (simp add: make_partition_def Let_def floordiv_def array_split_def)
qed

lemma make_partition_zero:
  "make_partition nx ny rangex rangey 0 = Inl ZeroDivisionError"
  by (simp add: make_partition_def Let_def floordiv_def)

lemma length_batch_pixels:
  assumes "make_partition nx ny rangex rangey batch = Inr p" and "i < nat (p_n_batches p)"
  shows "length (batch_pixels p i) =
     (if i < nat (p_n_pixels p) mod nat (p_n_batches p)
      then nat (p_n_pixels p) div nat (p_n_batches p) + 1
      else nat (p_n_pixels p) div nat (p_n_batches p))"
proof -
  note D = make_partition_InrD [OF assms(1)]
  let ?ks = "section_sizes (nat (p_n_pixels p)) (nat (p_n_batches p))"
  let ?zs = "zip (meshgrid_X (axis_coords rangex nx) (axis_coords rangey ny))
         (meshgrid_Y (axis_coords rangex nx) (axis_coords rangey ny))"
  have k: "0 < nat (p_n_batches p)" using D(4) by simp
  have "sum_list ?ks = length ?zs"
    using k D(2) by (simp add: sum_list_section_sizes length_meshgrid_X length_meshgrid_Y nat_mult_distrib)
  then have "length (cut_sections ?ks ?zs ! i) = ?ks ! i"
    using assms(2) k by (intro length_cut_sections_nth) (simp_all add: length_section_sizes)
  then show ?thesis
    using assms(2) k by (simp add: batch_pixels_cut_sections [OF assms] section_sizes_nth)
qed

lemma n_batches_le_n_pixels:
  assumes "make_partition nx ny rangex rangey batch = Inr p"
  shows "1 \<le> batch" and "p_n_batches p \<le> p_n_pixels p" and "batch \<le> p_n_pixels p"
proof -
  note D = make_partition_InrD [OF assms]
  have n0: "0 \<le> p_n_pixels p" by (simp add: D(2))
  show b: "1 \<le> batch"
  proof (rule ccontr)
    assume "\<not> 1 \<le> batch"
    with D(1) have "batch < 0" by simp
    with n0 have "p_n_pixels p div batch \<le> 0" by (simp add: div_nonneg_neg_le0)
    with D(3,4) show False by simp
  qed
  show bn: "batch \<le> p_n_pixels p"
  proof (rule ccontr)
    assume "\<not> batch \<le> p_n_pixels p"
    with n0 have "p_n_pixels p div batch = 0" by (simp add: div_pos_pos_trivial)
    with D(3,4) show False by simp
  qed
  from b bn have "p_n_pixels p div batch \<le> p_n_pixels p"
    by (intro int_div_le_self) simp
  with D(3) show "p_n_batches p \<le> p_n_pixels p" by simp
qed

text \<open>
  Claim C4, amended. Let \<open>n\<close> be the number of requested pixels and \<open>b\<close> the batch size.
  For \<open>1 \<le> b \<le> n\<close> the partition step succeeds with \<open>n div b\<close> batches; with
  \<open>k = n div b\<close>, the first \<open>n mod k\<close> batches hold \<open>n div k + 1\<close> pixels and the others
  \<open>n div k\<close>, no batch is empty, and the batches in order are the whole flattened pixel
  sequence (no pixel dropped). The batch count is never clamped: for \<open>b > n\<close> or
  \<open>b < 0\<close> the step raises \<^verbatim>\<open>ValueError\<close>, for \<open>b = 0\<close> \<^verbatim>\<open>ZeroDivisionError\<close>.
\<close>

theorem batch_count_and_sizes:
  fixes nx ny batch :: int
  shows "(1 \<le> batch \<and> batch \<le> int (card (requested_pixels nx ny rangex rangey)) \<longrightarrow>
      (\<exists>p. make_partition nx ny rangex rangey batch = Inr p \<and>
         p_n_pixels p = int (card (requested_pixels nx ny rangex rangey)) \<and>
         p_n_batches p = p_n_pixels p div batch \<and>
         length (divX p) = nat (p_n_batches p) \<and> length (divY p) = nat (p_n_batches p) \<and>
         (\<forall>i < nat (p_n_batches p).
            batch_pixels p i \<noteq> [] \<and>
            length (batch_pixels p i) =
              (if i < nat (p_n_pixels p) mod nat (p_n_batches p)
               then nat (p_n_pixels p) div nat (p_n_batches p) + 1
               else nat (p_n_pixels p) div nat (p_n_batches p))) \<and>
         concat (map (batch_pixels p) [0..<nat (p_n_batches p)]) =
           zip (meshgrid_X (axis_coords rangex nx) (axis_coords rangey ny))
               (meshgrid_Y (axis_coords rangex nx) (axis_coords rangey ny)))) \<and>
    (batch \<noteq> 0 \<and> (batch < 1 \<or> int (card (requested_pixels nx ny rangex rangey)) < batch) \<longrightarrow>
       make_partition nx ny rangex rangey batch = Inl ValueError) \<and>
    (batch = 0 \<longrightarrow> make_partition nx ny rangex rangey batch = Inl ZeroDivisionError)"
proof (intro conjI impI)
  assume b: "1 \<le> batch \<and> batch \<le> int (card (requested_pixels nx ny rangex rangey))"
  then obtain p where p: "make_partition nx ny rangex rangey batch = Inr p"
    using make_partition_Inr [of batch rangex nx rangey ny] by (auto simp: n_pixels_card)
  note D = make_partition_InrD [OF p]
  have lens: "length (divX p) = nat (p_n_batches p)" "length (divY p) = nat (p_n_batches p)"
    using D(4) by (simp_all add: D(5,6) length_cut_sections length_section_sizes)
  have sizes: "length (batch_pixels p i) =
              (if i < nat (p_n_pixels p) mod nat (p_n_batches p)
               then nat (p_n_pixels p) div nat (p_n_batches p) + 1
               else nat (p_n_pixels p) div nat (p_n_batches p))" if "i < nat (p_n_batches p)" for i
    using length_batch_pixels [OF p that] .
  have "nat (p_n_batches p) \<le> nat (p_n_pixels p)" "0 < nat (p_n_batches p)"
    using n_batches_le_n_pixels(2) [OF p] D(4) by simp_all
  then have "0 < nat (p_n_pixels p) div nat (p_n_batches p)"
    by (simp add: div_greater_zero_iff)
  then have nonempty: "batch_pixels p i \<noteq> []" if "i < nat (p_n_batches p)" for i
  proof -
    from sizes [OF that] \<open>0 < nat (p_n_pixels p) div nat (p_n_batches p)\<close>
    have "0 < length (batch_pixels p i)" by (simp split: if_splits)
    then show ?thesis by simp
  qed
  show "\<exists>p. make_partition nx ny rangex rangey batch = Inr p \<and>
         p_n_pixels p = int (card (requested_pixels nx ny rangex rangey)) \<and>
         p_n_batches p = p_n_pixels p div batch \<and>
         length (divX p) = nat (p_n_batches p) \<and> length (divY p) = nat (p_n_batches p) \<and>
         (\<forall>i < nat (p_n_batches p).
            batch_pixels p i \<noteq> [] \<and>
            length (batch_pixels p i) =
              (if i < nat (p_n_pixels p) mod nat (p_n_batches p)
               then nat (p_n_pixels p) div nat (p_n_batches p) + 1
               else nat (p_n_pixels p) div nat (p_n_batches p))) \<and>
         concat (map (batch_pixels p) [0..<nat (p_n_batches p)]) =
           zip (meshgrid_X (axis_coords rangex nx) (axis_coords rangey ny))
               (meshgrid_Y (axis_coords rangex nx) (axis_coords rangey ny))"
    using p D(2,3) lens sizes nonempty concat_batches [OF p]
    by (intro exI [of _ p]) (simp add: n_pixels_card)
next
  assume "batch \<noteq> 0 \<and> (batch < 1 \<or> int (card (requested_pixels nx ny rangex rangey)) < batch)"
  then show "make_partition nx ny rangex rangey batch = Inl ValueError"
    using make_partition_Inl [of batch rangex nx rangey ny] by (simp add: n_pixels_card)
next
  assume "batch = 0"
  then show "make_partition nx ny rangex rangey batch = Inl ZeroDivisionError"
    by (simp add: make_partition_zero)
qed

text \<open>
  Seven pixels in batches of three: two batches, of four and of three pixels; and seven
  pixels with batch size eight: no batch, the step fails.
\<close>

theorem batch_count_and_sizes_witness:
  "(\<exists>p. make_partition 7 1 None None 3 = Inr p \<and> p_n_batches p = 2 \<and>
        length (batch_pixels p 0) = 4 \<and> length (batch_pixels p 1) = 3) \<and>
   make_partition 7 1 None None 8 = Inl ValueError"
proof -
  have c: "card (requested_pixels 7 1 None None) = 7"
    by (simp add: requested_pixels_def requested_axis_def card_cartesian_product)
  from batch_count_and_sizes [of 3 7 1 None None] c
  obtain p where p: "make_partition 7 1 None None 3 = Inr p" "p_n_pixels p = 7"
      "p_n_batches p = p_n_pixels p div 3"
      "\<forall>i < nat (p_n_batches p).
            batch_pixels p i \<noteq> [] \<and>
            length (batch_pixels p i) =
              (if i < nat (p_n_pixels p) mod nat (p_n_batches p)
               then nat (p_n_pixels p) div nat (p_n_batches p) + 1
               else nat (p_n_pixels p) div nat (p_n_batches p))"
    by auto
  from p(2,3) have k: "p_n_batches p = 2" by simp
  from p(4) have "length (batch_pixels p 0) = 4" "length (batch_pixels p 1) = 3"
    by (simp_all add: k p(2))
  moreover from batch_count_and_sizes [of 8 7 1 None None] c
  have "make_partition 7 1 None None 8 = Inl ValueError" by simp
  ultimately show ?thesis using p(1) k by blast
qed

text \<open>
  Claim C4 as stated fails: three pixels and batch size four give a batch count of 0,
  nothing clamps it to the pixel count, and \<^verbatim>\<open>np.array_split\<close> raises.
\<close>

theorem batch_count_not_clamped_counterexample:
  "make_partition 3 1 None None 4 = Inl ValueError"
  by code_simp

text \<open>
  Claim C8. Constructing the iterator with \<^verbatim>\<open>use_mpi=True\<close> while the communicator has
  exactly one process raises an exception (the one about missing agents when mpi4py is
  there, the one about missing MPI otherwise); no iterator results and the trace of
  store events is the one given: nothing was opened, created or written.
\<close>

theorem init_single_process_rejected:
  assumes "comm_size env = 1"
  shows "init env tr True batch_arg n_batches_arg =
     (Inl (if mpi_available env then NoAgentsException else NoMPIException), tr)"
  using assms by (simp add: init_def)

theorem init_single_process_rejected_witness:
  "init \<lparr>mpi_available = True, comm_size = 1, comm_rank = 0\<rparr> [] True 1 None =
     (Inl NoAgentsException, [])"
  using init_single_process_rejected
    [of "\<lparr>mpi_available = True, comm_size = 1, comm_rank = 0\<rparr>" "[]" 1 None]
  by simp

lemma serial_iterator_init:
  "init env [] False 1 None = (Inr it, tr) \<Longrightarrow> use_model it (Some m) r = serial_iterator m"
  by (auto simp: init_def use_model_def serial_iterator_def)

lemma length_raster: "length (raster ny nx) = nat ny * nat nx"
  by (simp add: raster_def length_concat comp_def sum_list_triv)

lemma step_cases [consumes 1, case_names SendReady RecvStart RecvExit MReady MDone MExit Finish]:
  assumes "step a s = Some s'"
  obtains
    (SendReady) w where "a = AgentSendReady w" "w < length (agents s)" "pc (agents s ! w) = SendReady"
      "s' = s\<lparr>agents := (agents s)[w := (agents s ! w)
                     \<lparr>pc := Receive, outbox := outbox (agents s ! w) @ [READY]\<rparr>]\<rparr>"
  | (RecvStart) w t rest where "a = AgentReceive w" "w < length (agents s)" "pc (agents s ! w) = Receive"
      "inbox (agents s ! w) = START t # rest"
      "s' = s\<lparr>agents := (agents s)[w := (agents s ! w)
                          \<lparr>pc := SendReady, inbox := rest,
                           outbox := outbox (agents s ! w) @ [DONE (agent_compute (sys_model s) t)]\<rparr>]\<rparr>"
  | (RecvExit) w rest where "a = AgentReceive w" "w < length (agents s)" "pc (agents s ! w) = Receive"
      "inbox (agents s ! w) = EXIT # rest"
      "s' = s\<lparr>agents := (agents s)[w := (agents s ! w)
                          \<lparr>pc := Exited, inbox := rest,
                           outbox := outbox (agents s ! w) @ [EXIT_ack]\<rparr>]\<rparr>"
  | (MReady) w rest where "a = MasterReceive w" "status s = Dispatching"
      "int (closed_workers s) < num_workers s" "w < length (agents s)"
      "outbox (agents s ! w) = READY # rest"
      "s' = master_ready w (s\<lparr>agents := (agents s)[w := (agents s ! w)\<lparr>outbox := rest\<rparr>]\<rparr>)"
  | (MDone) w r rest where "a = MasterReceive w" "status s = Dispatching"
      "int (closed_workers s) < num_workers s" "w < length (agents s)"
      "outbox (agents s ! w) = DONE r # rest"
      "s' = master_done r (s\<lparr>agents := (agents s)[w := (agents s ! w)\<lparr>outbox := rest\<rparr>]\<rparr>)"
  | (MExit) w rest where "a = MasterReceive w" "status s = Dispatching"
      "int (closed_workers s) < num_workers s" "w < length (agents s)"
      "outbox (agents s ! w) = EXIT_ack # rest"
      "s' = master_exit (s\<lparr>agents := (agents s)[w := (agents s ! w)\<lparr>outbox := rest\<rparr>]\<rparr>)"
  | (Finish) "a = MasterFinish" "status s = Dispatching"
      "\<not> int (closed_workers s) < num_workers s" "s' = master_finish s"
proof (cases a)
  case (AgentSendReady w)
  with assms SendReady show ?thesis by (auto split: if_splits)
next
  case (AgentReceive w)
  with assms RecvStart RecvExit show ?thesis
    by (auto split: if_splits list.splits to_agent.splits)
next
  case (MasterReceive w)
  with assms MReady MDone MExit show ?thesis
    by (auto simp: Let_def split: if_splits list.splits to_master.splits)
next
  case MasterFinish
  with assms Finish show ?thesis by (auto split: if_splits)
qed

lemma for_each_append_only:
  "for_each f is tr = (e, tr') \<Longrightarrow> \<exists>evs. tr' = tr @ evs"
proof (induction "is" arbitrary: tr)
  case Nil
  then show ?case by simp
next
  case (Cons i rest)
  then show ?case by (fastforce split: sum.splits)
qed

lemma status_master_ready:
  "status (master_ready w s) = Dispatching \<Longrightarrow> status s = Dispatching"
  by (auto simp: master_ready_def Let_def split: if_splits sum.splits)

lemma status_master_done:
  "status (master_done r s) = Dispatching \<Longrightarrow> status s = Dispatching"
  by (auto simp: master_done_def Let_def split: if_splits sum.splits prod.splits option.splits)

lemma step_status_back:
  assumes "step a s = Some s'" and "status s' = Dispatching"
  shows "status s = Dispatching"
  using assms by (cases rule: step_cases) auto

lemma step_status_Raised:
  assumes "step a s = Some s'" and "status s = Raised e"
  shows "status s' = Raised e"
  using assms by (cases rule: step_cases) auto

lemma task_ok_mono: "task_ok p ti t \<Longrightarrow> ti \<le> ti' \<Longrightarrow> task_ok p ti' t"
  by (auto simp: task_ok_def)

lemma result_ok_mono: "result_ok p ti r \<Longrightarrow> ti \<le> ti' \<Longrightarrow> result_ok p ti' r"
  by (auto simp: result_ok_def)

lemma agent_ok_mono: "agent_ok p ti a \<Longrightarrow> ti \<le> ti' \<Longrightarrow> agent_ok p ti' a"
  unfolding agent_ok_def by (meson task_ok_mono result_ok_mono)

lemma shape_inv_update:
  assumes inv: "shape_inv s"
    and frame: "sys_partition s' = sys_partition s" "num_workers s' = num_workers s"
    and upd: "agents s' = (agents s)[w := a']" "w < length (agents s)"
    and ok: "agent_ok (sys_partition s) (task_index s') a'"
    and ti: "task_index s \<le> task_index s'" "int (task_index s') \<le> p_n_batches (sys_partition s)"
    and ex: "got_exit a' \<longrightarrow> int (task_index s') = p_n_batches (sys_partition s)"
  shows "shape_inv s'"
proof -
  let ?p = "sys_partition s"
  have all_ok: "agent_ok ?p (task_index s') (agents s' ! v)" if "v < length (agents s')" for v
  proof (cases "v = w")
    case True
    with upd ok show ?thesis by simp
  next
    case False
    from that upd have "v < length (agents s)" by simp
    with inv have "agent_ok ?p (task_index s) (agents s ! v)" by (simp add: shape_inv_def)
    from agent_ok_mono [OF this ti(1)] have "agent_ok ?p (task_index s') (agents s ! v)" .
    with False upd show ?thesis by simp
  qed
  have exit_ok: "int (task_index s') = p_n_batches ?p"
    if "v < length (agents s')" "got_exit (agents s' ! v)" for v
  proof (cases "v = w")
    case True
    with that upd ex show ?thesis by simp
  next
    case False
    with that upd have "v < length (agents s)" "got_exit (agents s ! v)" by simp_all
    with inv have "int (task_index s) = p_n_batches ?p" by (auto simp: shape_inv_def)
    with ti show ?thesis by simp
  qed
  from inv have "partition_ok ?p" "length (agents s) = nat (num_workers s)"
    by (simp_all add: shape_inv_def)
  with frame upd ti all_ok exit_ok show ?thesis
    unfolding shape_inv_def by auto
qed

lemma shape_inv_agent:
  "shape_inv s \<Longrightarrow> w < length (agents s) \<Longrightarrow> agent_ok (sys_partition s) (task_index s) (agents s ! w)"
  by (simp add: shape_inv_def)

lemma shape_inv_step:
  assumes inv: "shape_inv s" and st: "step a s = Some s'" and disp: "status s' = Dispatching"
  shows "shape_inv s'"
  using st
proof (cases rule: step_cases)
  case (SendReady w)
  let ?a = "(agents s ! w)\<lparr>pc := Receive, outbox := outbox (agents s ! w) @ [READY]\<rparr>"
  from shape_inv_agent [OF inv SendReady(2)] SendReady(3)
  have ok: "agent_ok (sys_partition s) (task_index s') ?a"
    by (auto simp: agent_ok_def SendReady(4))
  have ex: "got_exit ?a \<longrightarrow> int (task_index s') = p_n_batches (sys_partition s)"
    using shape_inv_agent [OF inv SendReady(2)] SendReady(3) by (auto simp: agent_ok_def got_exit_def)
  show ?thesis
    by (rule shape_inv_update [OF inv _ _ _ SendReady(2) ok _ _ ex])
      (use inv in \<open>simp_all add: SendReady(4) shape_inv_def\<close>)
next
  case (RecvStart w t rest)
  let ?a = "(agents s ! w)\<lparr>pc := SendReady, inbox := rest,
          outbox := outbox (agents s ! w) @ [DONE (agent_compute (sys_model s) t)]\<rparr>"
  from shape_inv_agent [OF inv RecvStart(2)] RecvStart(3,4)
  have ok: "agent_ok (sys_partition s) (task_index s') ?a"
    by (auto simp: agent_ok_def agent_compute_def Let_def task_ok_def result_ok_def RecvStart(5))
  have ex: "got_exit ?a \<longrightarrow> int (task_index s') = p_n_batches (sys_partition s)"
    using shape_inv_agent [OF inv RecvStart(2)] RecvStart(3,4) by (auto simp: agent_ok_def got_exit_def)
  show ?thesis
    by (rule shape_inv_update [OF inv _ _ _ RecvStart(2) ok _ _ ex])
      (use inv in \<open>simp_all add: RecvStart(5) shape_inv_def\<close>)
next
  case (RecvExit w rest)
  let ?a = "(agents s ! w)\<lparr>pc := Exited, inbox := rest, outbox := outbox (agents s ! w) @ [EXIT_ack]\<rparr>"
  from shape_inv_agent [OF inv RecvExit(2)] RecvExit(3,4)
  have ok: "agent_ok (sys_partition s) (task_index s') ?a"
    by (auto simp: agent_ok_def RecvExit(5))
  have "got_exit (agents s ! w)"
    using RecvExit(3,4) shape_inv_agent [OF inv RecvExit(2)] by (auto simp: agent_ok_def got_exit_def)
  then have "int (task_index s) = p_n_batches (sys_partition s)"
    using inv RecvExit(2) by (auto simp: shape_inv_def)
  then have ex: "got_exit ?a \<longrightarrow> int (task_index s') = p_n_batches (sys_partition s)"
    by (simp add: RecvExit(5))
  show ?thesis
    by (rule shape_inv_update [OF inv _ _ _ RecvExit(2) ok _ _ ex])
      (use inv in \<open>simp_all add: RecvExit(5) shape_inv_def\<close>)
next
  case (MReady w rest)
  from shape_inv_agent [OF inv MReady(4)] MReady(5)
  have ag: "pc (agents s ! w) = Receive" "rest = []" "inbox (agents s ! w) = []"
    by (auto simp: agent_ok_def)
  show ?thesis
  proof (cases "int (task_index s) < p_n_batches (sys_partition s)")
    case True
    with disp MReady(6) obtain slabs where
      sl: "task_slices (sys_model s) (sys_cubes s) (divY (sys_partition s) ! task_index s)
             (divX (sys_partition s) ! task_index s) = Inr slabs"
      by (auto simp: master_ready_def Let_def split: sum.splits)
    let ?t = "\<lparr>t_index = task_index s, t_indX = divX (sys_partition s) ! task_index s,
               t_indY = divY (sys_partition s) ! task_index s,
               t_interpolate = interpolate_model s, t_model = slabs\<rparr>"
    let ?a = "(agents s ! w)\<lparr>outbox := [], inbox := [START ?t]\<rparr>"
    have s': "agents s' = (agents s)[w := ?a]"
      "task_index s' = Suc (task_index s)" "sys_partition s' = sys_partition s"
      "num_workers s' = num_workers s"
      using MReady(4,6) True sl ag by (simp_all add: master_ready_def Let_def)
    have ok: "agent_ok (sys_partition s) (task_index s') ?a"
      using ag by (simp add: agent_ok_def task_ok_def s')
    have ex: "got_exit ?a \<longrightarrow> int (task_index s') = p_n_batches (sys_partition s)"
      using ag by (simp add: got_exit_def)
    show ?thesis
      by (rule shape_inv_update [OF inv s'(3,4,1) MReady(4) ok _ _ ex])
        (use True in \<open>simp_all add: s'\<close>)
  next
    case False
    let ?a = "(agents s ! w)\<lparr>outbox := [], inbox := [EXIT]\<rparr>"
    have s': "agents s' = (agents s)[w := ?a]"
      "task_index s' = task_index s" "sys_partition s' = sys_partition s"
      "num_workers s' = num_workers s"
      using MReady(4,6) False ag by (simp_all add: master_ready_def Let_def)
    have ok: "agent_ok (sys_partition s) (task_index s') ?a"
      using ag by (simp add: agent_ok_def s')
    from inv False have eq: "int (task_index s) = p_n_batches (sys_partition s)"
      by (simp add: shape_inv_def)
    then have ex: "got_exit ?a \<longrightarrow> int (task_index s') = p_n_batches (sys_partition s)"
      by (simp add: s')
    show ?thesis
      by (rule shape_inv_update [OF inv s'(3,4,1) MReady(4) ok _ _ ex])
        (use eq in \<open>simp_all add: s'\<close>)
  qed
next
  case (MDone w r rest)
  let ?a = "(agents s ! w)\<lparr>outbox := rest\<rparr>"
  have s': "agents s' = (agents s)[w := ?a]"
      "task_index s' = task_index s" "sys_partition s' = sys_partition s"
      "num_workers s' = num_workers s"
    using MDone(6) by (simp_all add: master_done_def Let_def split: prod.splits option.splits)
  from shape_inv_agent [OF inv MDone(4)] MDone(5)
  have ok: "agent_ok (sys_partition s) (task_index s') ?a"
    by (auto simp: agent_ok_def s')
  have "got_exit ?a \<Longrightarrow> got_exit (agents s ! w)"
    by (simp add: got_exit_def)
  with inv MDone(4) have ex: "got_exit ?a \<longrightarrow> int (task_index s') = p_n_batches (sys_partition s)"
    by (auto simp: shape_inv_def s')
  show ?thesis
    by (rule shape_inv_update [OF inv s'(3,4,1) MDone(4) ok _ _ ex])
      (use inv in \<open>simp_all add: s' shape_inv_def\<close>)
next
  case (MExit w rest)
  let ?a = "(agents s ! w)\<lparr>outbox := rest\<rparr>"
  have s': "agents s' = (agents s)[w := ?a]"
      "task_index s' = task_index s" "sys_partition s' = sys_partition s"
      "num_workers s' = num_workers s"
    using MExit(6) by (simp_all add: master_exit_def)
  from shape_inv_agent [OF inv MExit(4)] MExit(5)
  have ok: "agent_ok (sys_partition s) (task_index s') ?a"
    by (auto simp: agent_ok_def s')
  have "got_exit ?a \<Longrightarrow> got_exit (agents s ! w)"
    by (simp add: got_exit_def)
  with inv MExit(4) have ex: "got_exit ?a \<longrightarrow> int (task_index s') = p_n_batches (sys_partition s)"
    by (auto simp: shape_inv_def s')
  show ?thesis
    by (rule shape_inv_update [OF inv s'(3,4,1) MExit(4) ok _ _ ex])
      (use inv in \<open>simp_all add: s' shape_inv_def\<close>)
next
  case Finish
  with disp show ?thesis
    by (auto simp: master_finish_def split: option.splits list.splits)
qed

lemma start_sends_append: "start_sends (tr @ tr') = start_sends tr @ start_sends tr'"
  by (induction tr rule: start_sends.induct) simp_all

lemma exit_sends_append: "exit_sends (tr @ tr') = exit_sends tr @ exit_sends tr'"
  by (induction tr rule: exit_sends.induct) simp_all

lemma received_append: "received (tr @ tr') = received tr @ received tr'"
  by (induction tr rule: received.induct) simp_all

lemma cells_append: "cells d (tr @ tr') = cells d tr @ cells d tr'"
  by (induction d tr rule: cells.induct) simp_all

lemma store_only_append: "store_only evs \<Longrightarrow> store_only evs' \<Longrightarrow> store_only (evs @ evs')"
  by (simp add: store_only_def start_sends_append exit_sends_append received_append)

lemma store_only_Nil: "store_only []"
  by (simp add: store_only_def)

lemma for_each_model_rows:
  "for_each (write_model_row X Y model) is tr = (None, tr') \<Longrightarrow>
     \<exists>evs. tr' = tr @ evs \<and> store_only evs \<and> (\<forall>d. cells d evs = [])"
proof (induction "is" arbitrary: tr)
  case Nil
  then show ?case by (simp add: store_only_Nil)
next
  case (Cons i rest)
  from Cons.prems obtain evs0 where f: "write_model_row X Y model i = Inr evs0"
    and rest: "for_each (write_model_row X Y model) rest (tr @ evs0) = (None, tr')"
    by (auto split: sum.splits)
  from f have e0: "store_only evs0" "\<And>d. cells d evs0 = []"
    by (auto simp: write_model_row_def store_only_def split: if_splits)
  from Cons.IH [OF rest] obtain evs where
    "tr' = (tr @ evs0) @ evs" "store_only evs" "\<forall>d. cells d evs = []" by blast
  with e0 show ?case
    by (intro exI [of _ "evs0 @ evs"]) (simp add: store_only_append cells_append)
qed

lemma for_each_stokes_rows:
  "for_each (write_stokes_rows X Y st) is tr = (None, tr') \<Longrightarrow>
     \<exists>evs. tr' = tr @ evs \<and> store_only evs \<and>
       (\<forall>d \<in> {DS_I, DS_Q, DS_U, DS_V}. cells d evs = map (\<lambda>i. (Y ! i, X ! i)) is)"
proof (induction "is" arbitrary: tr)
  case Nil
  then show ?case by (simp add: store_only_Nil)
next
  case (Cons i rest)
  from Cons.prems obtain evs0 where f: "write_stokes_rows X Y st i = Inr evs0"
    and rest: "for_each (write_stokes_rows X Y st) rest (tr @ evs0) = (None, tr')"
    by (auto split: sum.splits)
  from f have e0: "store_only evs0" "\<forall>d \<in> {DS_I, DS_Q, DS_U, DS_V}. cells d evs0 = [(Y ! i, X ! i)]"
    by (auto simp: write_stokes_rows_def store_only_def split: if_splits)
  from Cons.IH [OF rest] obtain evs where
    "tr' = (tr @ evs0) @ evs" "store_only evs"
    "\<forall>d \<in> {DS_I, DS_Q, DS_U, DS_V}. cells d evs = map (\<lambda>i. (Y ! i, X ! i)) rest" by blast
  with e0 show ?case
    by (intro exI [of _ "evs0 @ evs"]) (simp add: store_only_append cells_append)
qed

lemma zip_as_map_nth:
  "length X = length Y \<Longrightarrow> map (\<lambda>i. (Y ! i, X ! i)) [0..<length X] = zip Y X"
  by (rule nth_equalityI) simp_all

lemma master_done_effect:
  assumes "status (master_done r s) = Dispatching" and "length (r_indX r) = length (r_indY r)"
  shows "\<exists>evs. trace (master_done r s) = trace s @ evs @ [RecvDone (r_index r)] \<and> store_only evs \<and>
      (\<forall>d \<in> {DS_I, DS_Q, DS_U, DS_V}. cells d evs = zip (r_indY r) (r_indX r))"
    and "stokes_var (master_done r s) \<noteq> None"
    and "agents (master_done r s) = agents s" and "task_index (master_done r s) = task_index s"
    and "closed_workers (master_done r s) = closed_workers s"
    and "sys_partition (master_done r s) = sys_partition s"
    and "num_workers (master_done r s) = num_workers s"
proof -
  let ?rng = "[0..<length (r_indX r)]"
  let ?m_out = "(if interpolate_model s then
                     (case r_model r of
                        None \<Rightarrow> (Some KeyError, trace s)
                      | Some model \<Rightarrow>
                          for_each (write_model_row (r_indX r) (r_indY r) model) ?rng (trace s))
                   else (None, trace s))"
  obtain e1 tr1 where m: "?m_out = (e1, tr1)" by (cases ?m_out)
  have e1: "e1 = None"
    using assms(1) m by (cases e1) (simp_all add: master_done_def Let_def)
  obtain e2 tr2 where w: "for_each (write_stokes_rows (r_indX r) (r_indY r) (r_stokes r)) ?rng tr1 = (e2, tr2)"
    by (cases "for_each (write_stokes_rows (r_indX r) (r_indY r) (r_stokes r)) ?rng tr1")
  have e2: "e2 = None"
    using assms(1) m e1 w by (cases e2) (simp_all add: master_done_def Let_def)
  have s': "master_done r s = s\<lparr>stokes_var := Some (r_stokes r), trace := tr2 @ [RecvDone (r_index r)]\<rparr>"
    using m e1 w e2 by (simp add: master_done_def Let_def)
  from m e1 obtain evs1 where 1: "tr1 = trace s @ evs1" "store_only evs1" "\<forall>d. cells d evs1 = []"
    using for_each_model_rows [of "r_indX r" "r_indY r" _ ?rng "trace s" tr1]
    by (auto simp: store_only_Nil split: if_splits option.splits intro: exI [of _ "[]"])
  from w e2 obtain evs2 where 2: "tr2 = tr1 @ evs2" "store_only evs2"
    "\<forall>d \<in> {DS_I, DS_Q, DS_U, DS_V}. cells d evs2 = map (\<lambda>i. (r_indY r ! i, r_indX r ! i)) ?rng"
    using for_each_stokes_rows by blast
  show "\<exists>evs. trace (master_done r s) = trace s @ evs @ [RecvDone (r_index r)] \<and> store_only evs \<and>
      (\<forall>d \<in> {DS_I, DS_Q, DS_U, DS_V}. cells d evs = zip (r_indY r) (r_indX r))"
    using 1 2 zip_as_map_nth [OF assms(2)]
    by (intro exI [of _ "evs1 @ evs2"]) (simp add: s' store_only_append cells_append)
  show "stokes_var (master_done r s) \<noteq> None" "agents (master_done r s) = agents s"
    "task_index (master_done r s) = task_index s"
    "closed_workers (master_done r s) = closed_workers s"
    "sys_partition (master_done r s) = sys_partition s"
    "num_workers (master_done r s) = num_workers s"
    by (simp_all add: s')
qed

lemma step_effect [consumes 3, case_names Quiet Start Exit Done Ack]:
  assumes inv: "shape_inv s" and st: "step a s = Some s'" and disp: "status s' = Dispatching"
  obtains
    (Quiet) w a' where "w < length (agents s)" "agents s' = (agents s)[w := a']"
      "trace s' = trace s" "task_index s' = task_index s"
      "closed_workers s' = closed_workers s" "stokes_var s' = stokes_var s"
      "got_exit a' = got_exit (agents s ! w)" "agent_closed a' = agent_closed (agents s ! w)"
      "mset (inflight a') = mset (inflight (agents s ! w))"
  | (Start) w a' and t :: task where "w < length (agents s)" "agents s' = (agents s)[w := a']"
      "trace s' = trace s @ [Send w (START t)]" "task_index s' = Suc (task_index s)"
      "closed_workers s' = closed_workers s" "stokes_var s' = stokes_var s"
      "t_index t = task_index s" "task_ok (sys_partition s) (Suc (task_index s)) t"
      "\<not> got_exit a'" "\<not> got_exit (agents s ! w)" "\<not> agent_closed a'" "\<not> agent_closed (agents s ! w)"
      "inflight a' = [task_index s]" "inflight (agents s ! w) = []"
  | (Exit) w a' where "w < length (agents s)" "agents s' = (agents s)[w := a']"
      "trace s' = trace s @ [Send w EXIT]" "task_index s' = task_index s"
      "closed_workers s' = closed_workers s" "stokes_var s' = stokes_var s"
      "got_exit a'" "\<not> got_exit (agents s ! w)" "\<not> agent_closed a'" "\<not> agent_closed (agents s ! w)"
      "inflight a' = []" "inflight (agents s ! w) = []"
  | (Done) w a' and r :: result and evs where "w < length (agents s)" "agents s' = (agents s)[w := a']"
      "trace s' = trace s @ evs @ [RecvDone (r_index r)]" "store_only evs"
      "\<forall>d \<in> {DS_I, DS_Q, DS_U, DS_V}. cells d evs = batch_cells (sys_partition s) (r_index r)"
      "task_index s' = task_index s"
      "closed_workers s' = closed_workers s" "stokes_var s' \<noteq> None"
      "got_exit a' = got_exit (agents s ! w)" "\<not> agent_closed a'" "\<not> agent_closed (agents s ! w)"
      "inflight a' = []" "inflight (agents s ! w) = [r_index r]"
  | (Ack) w a' where "w < length (agents s)" "agents s' = (agents s)[w := a']"
      "trace s' = trace s" "task_index s' = task_index s"
      "closed_workers s' = Suc (closed_workers s)" "stokes_var s' = stokes_var s"
      "got_exit a'" "got_exit (agents s ! w)" "agent_closed a'" "\<not> agent_closed (agents s ! w)"
      "inflight a' = []" "inflight (agents s ! w) = []"
  using st
proof (cases rule: step_cases)
  case (SendReady w)
  let ?a = "(agents s ! w)\<lparr>pc := Receive, outbox := outbox (agents s ! w) @ [READY]\<rparr>"
  from shape_inv_agent [OF inv SendReady(2)] SendReady(3)
  have "got_exit ?a = got_exit (agents s ! w)" "agent_closed ?a = agent_closed (agents s ! w)"
    "mset (inflight ?a) = mset (inflight (agents s ! w))"
    by (auto simp: agent_ok_def got_exit_def agent_closed_def inflight_def)
  then show ?thesis
    using SendReady by (intro Quiet [of w ?a]) simp_all
next
  case (RecvStart w t rest)
  let ?a = "(agents s ! w)\<lparr>pc := SendReady, inbox := rest,
          outbox := outbox (agents s ! w) @ [DONE (agent_compute (sys_model s) t)]\<rparr>"
  from shape_inv_agent [OF inv RecvStart(2)] RecvStart(3,4)
  have "got_exit ?a = got_exit (agents s ! w)" "agent_closed ?a = agent_closed (agents s ! w)"
    "mset (inflight ?a) = mset (inflight (agents s ! w))"
    by (auto simp: agent_ok_def got_exit_def agent_closed_def inflight_def agent_compute_def Let_def)
  then show ?thesis
    using RecvStart by (intro Quiet [of w ?a]) simp_all
next
  case (RecvExit w rest)
  let ?a = "(agents s ! w)\<lparr>pc := Exited, inbox := rest, outbox := outbox (agents s ! w) @ [EXIT_ack]\<rparr>"
  from shape_inv_agent [OF inv RecvExit(2)] RecvExit(3,4)
  have "got_exit ?a = got_exit (agents s ! w)" "agent_closed ?a = agent_closed (agents s ! w)"
    "mset (inflight ?a) = mset (inflight (agents s ! w))"
    by (auto simp: agent_ok_def got_exit_def agent_closed_def inflight_def)
  then show ?thesis
    using RecvExit by (intro Quiet [of w ?a]) simp_all
next
  case (MReady w rest)
  from shape_inv_agent [OF inv MReady(4)] MReady(5)
  have ag: "pc (agents s ! w) = Receive" "rest = []" "inbox (agents s ! w) = []"
    by (auto simp: agent_ok_def)
  show ?thesis
  proof (cases "int (task_index s) < p_n_batches (sys_partition s)")
    case True
    with disp MReady(6) obtain slabs where
      sl: "task_slices (sys_model s) (sys_cubes s) (divY (sys_partition s) ! task_index s)
             (divX (sys_partition s) ! task_index s) = Inr slabs"
      by (auto simp: master_ready_def Let_def split: sum.splits)
    let ?t = "\<lparr>t_index = task_index s, t_indX = divX (sys_partition s) ! task_index s,
               t_indY = divY (sys_partition s) ! task_index s,
               t_interpolate = interpolate_model s, t_model = slabs\<rparr>"
    let ?a = "(agents s ! w)\<lparr>outbox := [], inbox := [START ?t]\<rparr>"
    have s': "agents s' = (agents s)[w := ?a]"
      "task_index s' = Suc (task_index s)" "trace s' = trace s @ [Send w (START ?t)]"
      "closed_workers s' = closed_workers s" "stokes_var s' = stokes_var s"
      using MReady(4,6) True sl ag by (simp_all add: master_ready_def Let_def)
    show ?thesis
      using ag MReady(4,5)
      by (intro Start [of w ?a ?t])
        (simp_all add: s' task_ok_def got_exit_def agent_closed_def inflight_def)
  next
    case False
    let ?a = "(agents s ! w)\<lparr>outbox := [], inbox := [EXIT]\<rparr>"
    have s': "agents s' = (agents s)[w := ?a]"
      "task_index s' = task_index s" "trace s' = trace s @ [Send w EXIT]"
      "closed_workers s' = closed_workers s" "stokes_var s' = stokes_var s"
      using MReady(4,6) False ag by (simp_all add: master_ready_def Let_def)
    show ?thesis
      using ag MReady(4,5)
      by (intro Exit [of w ?a])
        (simp_all add: s' got_exit_def agent_closed_def inflight_def)
  qed
next
  case (MDone w r rest)
  let ?s1 = "s\<lparr>agents := (agents s)[w := (agents s ! w)\<lparr>outbox := rest\<rparr>]\<rparr>"
  let ?a = "(agents s ! w)\<lparr>outbox := rest\<rparr>"
  from shape_inv_agent [OF inv MDone(4)] MDone(5)
  have ag: "result_ok (sys_partition s) (task_index s) r" "inbox (agents s ! w) = []"
    "pc (agents s ! w) \<noteq> Exited" "rest = [] \<or> rest = [READY]"
    by (auto simp: agent_ok_def)
  from inv have "partition_ok (sys_partition s)" "int (task_index s) \<le> p_n_batches (sys_partition s)"
    by (simp_all add: shape_inv_def)
  with ag(1) have len: "length (r_indX r) = length (r_indY r)"
    by (auto simp: result_ok_def partition_ok_def)
  from disp MDone(6) have d: "status (master_done r ?s1) = Dispatching" by simp
  note eff = master_done_effect [OF d len]
  from eff(1) obtain evs where evs:
    "trace s' = trace s @ evs @ [RecvDone (r_index r)]" "store_only evs"
    "\<forall>d \<in> {DS_I, DS_Q, DS_U, DS_V}. cells d evs = zip (r_indY r) (r_indX r)"
    by (auto simp: MDone(6))
  from evs(3) ag(1) have cells: "\<forall>d \<in> {DS_I, DS_Q, DS_U, DS_V}.
      cells d evs = batch_cells (sys_partition s) (r_index r)"
    by (simp add: batch_cells_def result_ok_def)
  show ?thesis
    using eff(2-5) MDone(4,5) ag evs(1,2) cells
    by (intro Done [of w ?a evs r])
      (auto simp: MDone(6) got_exit_def agent_closed_def inflight_def)
next
  case (MExit w rest)
  let ?a = "(agents s ! w)\<lparr>outbox := rest\<rparr>"
  from shape_inv_agent [OF inv MExit(4)] MExit(5)
  have ag: "pc (agents s ! w) = Exited" "rest = []" "inbox (agents s ! w) = []"
    by (auto simp: agent_ok_def)
  show ?thesis
    using ag MExit(4,5)
    by (intro Ack [of w ?a])
      (simp_all add: MExit(6) master_exit_def got_exit_def agent_closed_def inflight_def)
next
  case Finish
  with disp show ?thesis
    by (auto simp: master_finish_def split: option.splits list.splits)
qed

lemma master_ready_frame:
  "sys_partition (master_ready w s) = sys_partition s" "num_workers (master_ready w s) = num_workers s"
  "length (agents (master_ready w s)) = length (agents s)" "sys_model (master_ready w s) = sys_model s"
  "sys_cubes (master_ready w s) = sys_cubes s"
  "interpolate_model (master_ready w s) = interpolate_model s"
  by (simp_all add: master_ready_def Let_def split: sum.splits)

lemma master_done_frame:
  "sys_partition (master_done r s) = sys_partition s" "num_workers (master_done r s) = num_workers s"
  "length (agents (master_done r s)) = length (agents s)" "sys_model (master_done r s) = sys_model s"
  "sys_cubes (master_done r s) = sys_cubes s"
  "interpolate_model (master_done r s) = interpolate_model s"
  by (simp_all add: master_done_def Let_def split: prod.splits option.splits)

lemma master_exit_frame:
  "sys_partition (master_exit s) = sys_partition s" "num_workers (master_exit s) = num_workers s"
  "length (agents (master_exit s)) = length (agents s)" "sys_model (master_exit s) = sys_model s"
  "sys_cubes (master_exit s) = sys_cubes s"
  "interpolate_model (master_exit s) = interpolate_model s"
  by (simp_all add: master_exit_def)

lemma master_finish_frame:
  "sys_partition (master_finish s) = sys_partition s" "num_workers (master_finish s) = num_workers s"
  "length (agents (master_finish s)) = length (agents s)" "sys_model (master_finish s) = sys_model s"
  "sys_cubes (master_finish s) = sys_cubes s"
  "interpolate_model (master_finish s) = interpolate_model s"
  by (simp_all add: master_finish_def split: option.splits list.splits)

lemma step_frame:
  assumes "step a s = Some s'"
  shows "sys_partition s' = sys_partition s" and "num_workers s' = num_workers s"
    and "length (agents s') = length (agents s)" and "sys_model s' = sys_model s"
    and "sys_cubes s' = sys_cubes s" and "interpolate_model s' = interpolate_model s"
  using assms
  by (cases rule: step_cases;
      simp add: master_ready_frame master_done_frame master_exit_frame master_finish_frame)+

lemma filter_count_update_gen:
  "w < length xs \<Longrightarrow>
   length (filter P (xs[w := a])) + (if P (xs ! w) then 1 else 0) =
   length (filter P xs) + (if P a then 1 else 0)"
proof (induction xs arbitrary: w)
  case Nil
  then show ?case by simp
next
  case (Cons x xs)
  show ?case
  proof (cases w)
    case 0
    then show ?thesis by simp
  next
    case (Suc v)
    with Cons.prems have "v < length xs" by simp
    from Cons.IH [OF this] Suc show ?thesis by simp
  qed
qed

lemma filter_count_update_same:
  "w < length xs \<Longrightarrow> P a = P (xs ! w) \<Longrightarrow> length (filter P (xs[w := a])) = length (filter P xs)"
  using filter_count_update_gen [of w xs P a] by (simp split: if_splits)

lemma filter_count_update_new:
  "w < length xs \<Longrightarrow> P a \<Longrightarrow> \<not> P (xs ! w) \<Longrightarrow>
     length (filter P (xs[w := a])) = Suc (length (filter P xs))"
  using filter_count_update_gen [of w xs P a] by simp

lemma concat_map_update_mset:
  "w < length xs \<Longrightarrow>
   mset (concat (map f (xs[w := a]))) + mset (f (xs ! w)) = mset (concat (map f xs)) + mset (f a)"
proof (induction xs arbitrary: w)
  case Nil
  then show ?case by simp
next
  case (Cons x xs)
  show ?case
  proof (cases w)
    case 0
    then show ?thesis by simp
  next
    case (Suc v)
    with Cons.prems have "v < length xs" by simp
    from Cons.IH [OF this] Suc show ?thesis by (simp add: ac_simps)
  qed
qed

lemma closed_inv_step:
  assumes inv: "shape_inv s" and c: "closed_inv s"
    and st: "step a s = Some s'" and disp: "status s' = Dispatching"
  shows "closed_inv s'"
  using inv st disp
proof (cases rule: step_effect)
  case (Quiet w a')
  with c show ?thesis by (simp add: closed_inv_def filter_count_update_same)
next
  case (Start w a' t)
  with c show ?thesis by (simp add: closed_inv_def filter_count_update_same)
next
  case (Exit w a')
  with c show ?thesis by (simp add: closed_inv_def filter_count_update_same)
next
  case (Done w a' r evs)
  with c show ?thesis by (simp add: closed_inv_def filter_count_update_same)
next
  case (Ack w a')
  with c show ?thesis by (simp add: closed_inv_def filter_count_update_new)
qed

lemma store_only_sends:
  "store_only evs \<Longrightarrow> start_sends (tr @ evs @ [RecvDone i]) = start_sends tr"
  "store_only evs \<Longrightarrow> exit_sends (tr @ evs @ [RecvDone i]) = exit_sends tr"
  "store_only evs \<Longrightarrow> received (tr @ evs @ [RecvDone i]) = received tr @ [i]"
  "store_only evs \<Longrightarrow> FileClose F_stokes \<notin> set tr \<Longrightarrow> FileClose F_stokes \<notin> set (tr @ evs @ [RecvDone i])"
  by (simp_all add: store_only_def start_sends_append exit_sends_append received_append)

lemma sends_inv_step:
  assumes inv: "shape_inv s" and c: "sends_inv s"
    and st: "step a s = Some s'" and disp: "status s' = Dispatching"
  shows "sends_inv s'"
proof -
  note fr = step_frame [OF st]
  from inv st disp show ?thesis
  proof (cases rule: step_effect)
    case (Quiet w a')
    with c fr show ?thesis
      by (auto simp: sends_inv_def nth_list_update)
  next
    case (Start w a' t)
    have "task_ok (sys_partition s) (Suc (task_index s)) (snd wt)"
      if "wt \<in> set (start_sends (trace s))" for wt
      using c that by (auto simp: sends_inv_def intro: task_ok_mono)
    with c fr Start show ?thesis
      by (auto simp: sends_inv_def nth_list_update start_sends_append exit_sends_append)
  next
    case (Exit w a')
    with c fr show ?thesis
      by (auto simp: sends_inv_def nth_list_update start_sends_append exit_sends_append)
  next
    case (Done w a' r evs)
    with c fr show ?thesis
      by (auto simp: sends_inv_def nth_list_update store_only_sends)
  next
    case (Ack w a')
    with c fr show ?thesis
      by (auto simp: sends_inv_def nth_list_update)
  qed
qed

lemma results_inv_step:
  assumes inv: "shape_inv s" and c: "results_inv s"
    and st: "step a s = Some s'" and disp: "status s' = Dispatching"
  shows "results_inv s'"
proof -
  note fr = step_frame [OF st]
  from inv st disp show ?thesis
  proof (cases rule: step_effect)
    case (Quiet w a')
    from concat_map_update_mset [OF Quiet(1), of inflight a'] Quiet(9)
    have "mset (concat (map inflight (agents s'))) = mset (concat (map inflight (agents s)))"
      by (simp add: Quiet(2))
    with c fr Quiet show ?thesis
      by (simp add: results_inv_def)
  next
    case (Start w a' t)
    from concat_map_update_mset [OF Start(1), of inflight a'] Start(13,14)
    have "mset (concat (map inflight (agents s'))) =
        add_mset (task_index s) (mset (concat (map inflight (agents s))))"
      by (simp add: Start(2))
    with c fr Start show ?thesis
      by (simp add: results_inv_def received_append cells_append)
  next
    case (Exit w a')
    from concat_map_update_mset [OF Exit(1), of inflight a'] Exit(11,12)
    have "mset (concat (map inflight (agents s'))) = mset (concat (map inflight (agents s)))"
      by (simp add: Exit(2))
    with c fr Exit show ?thesis
      by (simp add: results_inv_def received_append cells_append)
  next
    case (Done w a' r evs)
    from concat_map_update_mset [OF Done(1), of inflight a'] Done(12,13)
    have fl: "add_mset (r_index r) (mset (concat (map inflight (agents s')))) =
        mset (concat (map inflight (agents s)))"
      by (simp add: Done(2))
    have rec: "received (trace s') = received (trace s) @ [r_index r]"
      by (simp add: Done(3) store_only_sends [OF Done(4)])
    have 1: "mset (received (trace s')) + mset (concat (map inflight (agents s'))) =
        mset [0..<task_index s']"
      using c by (simp add: results_inv_def Done(6) rec fl [symmetric])
    have 2: "cells d (trace s') = concat (map (batch_cells (sys_partition s')) (received (trace s')))"
      if "d \<in> {DS_I, DS_Q, DS_U, DS_V}" for d
    proof -
      from c that have "cells d (trace s) =
          concat (map (batch_cells (sys_partition s)) (received (trace s)))"
        by (auto simp: results_inv_def)
      moreover from Done(5) that have "cells d evs = batch_cells (sys_partition s) (r_index r)"
        by blast
      moreover have "cells d (trace s') = cells d (trace s) @ cells d evs"
        by (simp add: Done(3) cells_append)
      ultimately show ?thesis
        by (simp add: rec fr(1))
    qed
    have 3: "FileClose F_stokes \<notin> set (trace s')"
      using c Done(4) by (simp add: results_inv_def Done(3) store_only_def)
    have 4: "stokes_var s' = None \<longleftrightarrow> received (trace s') = []"
      using Done(8) by (simp add: rec)
    from 1 2 3 4 show ?thesis
      unfolding results_inv_def by blast
  next
    case (Ack w a')
    from concat_map_update_mset [OF Ack(1), of inflight a'] Ack(11,12)
    have "mset (concat (map inflight (agents s'))) = mset (concat (map inflight (agents s)))"
      by (simp add: Ack(2))
    with c fr Ack show ?thesis
      by (simp add: results_inv_def)
  qed
qed

lemma dispatch_inv_step:
  "dispatch_inv s \<Longrightarrow> step a s = Some s' \<Longrightarrow> status s' = Dispatching \<Longrightarrow> dispatch_inv s'"
  unfolding dispatch_inv_def
  using shape_inv_step closed_inv_step sends_inv_step results_inv_step by blast

lemma run_status_back:
  "run acts s = Some s' \<Longrightarrow> status s' = Dispatching \<Longrightarrow> status s = Dispatching"
proof (induction acts arbitrary: s)
  case Nil
  then show ?case by simp
next
  case (Cons a acts)
  from Cons.prems(1) obtain s1 where s1: "step a s = Some s1" "run acts s1 = Some s'"
    by (auto split: option.splits)
  from Cons.IH [OF s1(2) Cons.prems(2)] have "status s1 = Dispatching" .
  with s1(1) show ?case by (rule step_status_back)
qed

lemma run_status_Raised:
  "run acts s = Some s' \<Longrightarrow> status s = Raised e \<Longrightarrow> status s' = Raised e"
proof (induction acts arbitrary: s)
  case Nil
  then show ?case by simp
next
  case (Cons a acts)
  from Cons.prems(1) obtain s1 where s1: "step a s = Some s1" "run acts s1 = Some s'"
    by (auto split: option.splits)
  from step_status_Raised [OF s1(1) Cons.prems(2)] have "status s1 = Raised e" .
  with s1(2) show ?case by (rule Cons.IH)
qed

lemma run_dispatch_inv:
  "dispatch_inv s \<Longrightarrow> run acts s = Some s' \<Longrightarrow> status s' = Dispatching \<Longrightarrow> dispatch_inv s'"
proof (induction acts arbitrary: s)
  case Nil
  then show ?case by simp
next
  case (Cons a acts)
  from Cons.prems(2) obtain s1 where s1: "step a s = Some s1" "run acts s1 = Some s'"
    by (auto split: option.splits)
  from run_status_back [OF s1(2) Cons.prems(3)] have "status s1 = Dispatching" .
  with Cons.prems(1) s1(1) have "dispatch_inv s1" by (rule dispatch_inv_step)
  from this s1(2) Cons.prems(3) show ?case by (rule Cons.IH)
qed

lemma run_append: "run (as @ bs) s = (case run as s of None \<Rightarrow> None | Some s' \<Rightarrow> run bs s')"
  by (induction as arbitrary: s) (simp_all split: option.splits)

lemma step_to_Finished:
  assumes "step a s = Some s'" and "status s = Dispatching" and "status s' = Finished"
  shows "a = MasterFinish \<and> s' = master_finish s \<and> \<not> int (closed_workers s) < num_workers s"
  using assms
  by (cases rule: step_cases)
    (auto simp: master_ready_def master_done_def master_exit_def Let_def
      split: sum.splits prod.splits option.splits if_splits)

lemma all_agents_closed:
  assumes "shape_inv s" and "closed_inv s" and "\<not> int (closed_workers s) < num_workers s"
  shows "\<forall>a \<in> set (agents s). agent_closed a"
proof -
  from assms have "length (agents s) \<le> length (filter agent_closed (agents s))"
    by (simp add: shape_inv_def closed_inv_def)
  then have "length (filter agent_closed (agents s)) = length (agents s)"
    using length_filter_le [of agent_closed "agents s"] by simp
  then show ?thesis by (metis filter_id_conv length_filter_less less_irrefl)
qed

lemma finished_stuck:
  assumes "shape_inv s" and "closed_inv s" and "\<not> int (closed_workers s) < num_workers s"
    and "status (master_finish s) = Finished"
  shows "step a (master_finish s) = None"
proof -
  have ag: "agents (master_finish s) = agents s"
    by (simp add: master_finish_def split: option.splits list.splits)
  have "pc (agents s ! w) = Exited" if "w < length (agents s)" for w
    using all_agents_closed [OF assms(1-3)] that by (auto simp: agent_closed_def)
  then show ?thesis
    using assms(4) by (cases a) (auto simp: ag)
qed

lemma run_stuck: "(\<And>a. step a s = None) \<Longrightarrow> run acts s = Some s' \<Longrightarrow> acts = [] \<and> s' = s"
  by (cases acts) auto

lemma run_finished:
  assumes "dispatch_inv s0" and "status s0 = Dispatching"
    and "run acts s0 = Some s" and "status s = Finished"
  shows "\<exists>acts' s'. acts = acts' @ [MasterFinish] \<and> run acts' s0 = Some s' \<and> dispatch_inv s' \<and>
     status s' = Dispatching \<and> \<not> int (closed_workers s') < num_workers s' \<and> s = master_finish s'"
  using assms
proof (induction acts arbitrary: s0)
  case Nil
  then show ?case by simp
next
  case (Cons a acts)
  from Cons.prems(3) obtain s1 where s1: "step a s0 = Some s1" "run acts s1 = Some s"
    by (auto split: option.splits)
  show ?case
  proof (cases "status s1")
    case Dispatching
    from Cons.prems(1) s1(1) Dispatching have "dispatch_inv s1" by (rule dispatch_inv_step)
    from Cons.IH [OF this Dispatching s1(2) Cons.prems(4)]
    obtain acts' s' where "acts = acts' @ [MasterFinish]" "run acts' s1 = Some s'" "dispatch_inv s'"
      "status s' = Dispatching" "\<not> int (closed_workers s') < num_workers s'" "s = master_finish s'"
      by blast
    with s1(1) show ?thesis
      by (intro exI [of _ "a # acts'"] exI [of _ s']) simp
  next
    case Finished
    from step_to_Finished [OF s1(1) Cons.prems(2) Finished]
    have a: "a = MasterFinish" "s1 = master_finish s0" "\<not> int (closed_workers s0) < num_workers s0"
      by simp_all
    from Cons.prems(1) have "shape_inv s0" "closed_inv s0" by (simp_all add: dispatch_inv_def)
    from finished_stuck [OF this a(3)] Finished a(2)
    have "\<And>b. step b s1 = None" by simp
    from run_stuck [OF this s1(2)] have "acts = []" "s = s1" by simp_all
    with a Cons.prems(1,2) show ?thesis
      by (intro exI [of _ "[]"] exI [of _ s0]) simp
  next
    case (Raised e)
    from run_status_Raised [OF s1(2) Raised] Cons.prems(4) show ?thesis by simp
  qed
qed

lemma make_partition_ok:
  assumes "make_partition nx ny rangex rangey b = Inr p"
  shows "partition_ok p"
proof -
  note D = make_partition_InrD [OF assms]
  let ?ks = "section_sizes (nat (p_n_pixels p)) (nat (p_n_batches p))"
  let ?X = "meshgrid_X (axis_coords rangex nx) (axis_coords rangey ny)"
  let ?Y = "meshgrid_Y (axis_coords rangex nx) (axis_coords rangey ny)"
  have k: "0 < nat (p_n_batches p)" using D(4) by simp
  have sum: "sum_list ?ks = nat (p_n_pixels p)"
    using k by (rule sum_list_section_sizes)
  have lx: "length ?X = nat (p_n_pixels p)" and ly: "length ?Y = nat (p_n_pixels p)"
    by (simp_all add: D(2) length_meshgrid_X length_meshgrid_Y nat_mult_distrib)
  have "length (divX p ! i) = length (divY p ! i)" if "i < nat (p_n_batches p)" for i
  proof -
    from that k have i: "i < length ?ks" by (simp add: length_section_sizes)
    have "length (cut_sections ?ks ?X ! i) = ?ks ! i"
      using sum lx i by (intro length_cut_sections_nth) simp_all
    moreover have "length (cut_sections ?ks ?Y ! i) = ?ks ! i"
      using sum ly i by (intro length_cut_sections_nth) simp_all
    ultimately show ?thesis by (simp add: D(5,6))
  qed
  moreover have "length (divX p) = nat (p_n_batches p)" "length (divY p) = nat (p_n_batches p)"
    using k by (simp_all add: D(5,6) length_cut_sections length_section_sizes)
  ultimately show ?thesis
    using D(4) by (simp add: partition_ok_def)
qed

lemma setup_Inr:
  assumes "mpi_master_setup it tr rangex rangey = (Inr s0, it')"
  obtains m sz where "self_model it = Some m" "self_size it = Some sz"
    "make_partition (model_nx m) (model_ny m) rangex rangey (self_batch it) = Inr (sys_partition s0)"
    "sys_model s0 = m" "num_workers s0 = int sz - 1" "task_index s0 = 0"
    "closed_workers s0 = 0" "stokes_var s0 = None" "status s0 = Dispatching"
    "trace s0 = tr @ stokes_store_events m @ create_model_store_mpi m"
    "agents s0 = replicate (nat (int sz - 1)) \<lparr>pc = SendReady, outbox = [], inbox = []\<rparr>"
    "interpolate_model s0 = (interpolated_model_filename m \<noteq> None)"
    "create_stokes_store m = (None, stokes_store_events m)"
    "sys_cubes s0 = (if atmosphere_type m = ''MURAM'' then Some (muram_cubes m) else self_cubes it)"
proof -
  from assms obtain m where m: "self_model it = Some m"
    by (auto simp: mpi_master_setup_def split: option.splits)
  from assms m obtain p where p: "make_partition (model_nx m) (model_ny m) rangex rangey (self_batch it) = Inr p"
    by (auto simp: mpi_master_setup_def Let_def split: sum.splits)
  from assms m p have st: "create_stokes_store m = (None, stokes_store_events m)"
    by (auto simp: mpi_master_setup_def Let_def create_stokes_store_def split: if_splits)
  from assms m p st obtain sz where sz: "self_size it = Some sz"
    by (auto simp: mpi_master_setup_def Let_def split: option.splits)
  from assms m p st sz have s0: "s0 = \<lparr>sys_model = m,
        sys_cubes = (if atmosphere_type m = ''MURAM'' then Some (muram_cubes m) else self_cubes it),
        sys_partition = p,
        interpolate_model = (interpolated_model_filename m \<noteq> None),
        num_workers = int sz - 1, task_index = 0, closed_workers = 0,
        stokes_var = None, status = Dispatching,
        trace = tr @ stokes_store_events m @ create_model_store_mpi m,
        agents = replicate (nat (int sz - 1)) \<lparr>pc = SendReady, outbox = [], inbox = []\<rparr>\<rparr>"
    by (auto simp: mpi_master_setup_def Let_def split: option.splits)
  show thesis
    using m sz p st by (intro that [of m sz]) (simp_all add: s0)
qed

lemma store_creation_quiet:
  "start_sends (stokes_store_events m @ create_model_store_mpi m) = []"
  "exit_sends (stokes_store_events m @ create_model_store_mpi m) = []"
  "received (stokes_store_events m @ create_model_store_mpi m) = []"
  "cells d (stokes_store_events m @ create_model_store_mpi m) = []"
  "FileClose F_stokes \<notin> set (stokes_store_events m)"
  "FileClose F_stokes \<notin> set (create_model_store_mpi m)"
  by (simp_all add: stokes_store_events_def create_model_store_mpi_def split: option.splits)

lemma setup_dispatch_inv:
  assumes "mpi_master_setup it [] rangex rangey = (Inr s0, it')"
  shows "dispatch_inv s0"
  using assms
proof (cases rule: setup_Inr)
  case (1 m sz)
  have "partition_ok (sys_partition s0)"
    using 1(3) by (rule make_partition_ok)
  then have "shape_inv s0"
    using 1 by (auto simp: shape_inv_def agent_ok_def got_exit_def partition_ok_def)
  moreover have "closed_inv s0"
    using 1 by (simp add: closed_inv_def agent_closed_def)
  moreover have "sends_inv s0"
    using 1 by (auto simp: sends_inv_def store_creation_quiet got_exit_def)
  moreover have "results_inv s0"
    using 1 by (simp add: results_inv_def store_creation_quiet inflight_def)
  ultimately show ?thesis by (simp add: dispatch_inv_def)
qed

lemma master_finish_Finished:
  assumes "status s = Dispatching" and "status (master_finish s) = Finished"
  obtains s0 rest where "stokes_var s = Some (s0 # rest)"
    "master_finish s = s\<lparr>trace := trace s @ [WriteLambda (stokes_lambda s0), FileClose F_stokes] @
                     (if interpolate_model s then [FileClose F_model] else []),
            status := Finished\<rparr>"
  using assms by (auto simp: master_finish_def split: option.splits list.splits)

lemma count_list_upt_mset:
  assumes "\<forall>w. count_list xs w = (if w < n then 1 else 0)"
  shows "mset xs = mset [0..<n]"
proof (rule multiset_eqI)
  fix w
  have "count (mset [0..<n]) w = (if w < n then 1 else 0)"
    by (simp add: count_mset)
  with assms show "count (mset xs) w = count (mset [0..<n]) w"
    by (simp add: count_mset)
qed

lemma finish_facts:
  assumes inv: "dispatch_inv s" and disp: "status s = Dispatching"
    and stop: "\<not> int (closed_workers s) < num_workers s"
    and fin: "status (master_finish s) = Finished"
  shows "0 < num_workers s" and "int (closed_workers s) = num_workers s"
    and "task_index s = nat (p_n_batches (sys_partition s))"
    and "map (\<lambda>wt. t_index (snd wt)) (start_sends (trace s)) =
           [0..<nat (p_n_batches (sys_partition s))]"
    and "mset (exit_sends (trace s)) = mset [0..<nat (num_workers s)]"
    and "mset (received (trace s)) = mset [0..<nat (p_n_batches (sys_partition s))]"
proof -
  from inv have sh: "shape_inv s" and cl: "closed_inv s" and se: "sends_inv s" and re: "results_inv s"
    by (simp_all add: dispatch_inv_def)
  have closed: "agent_closed a" if "a \<in> set (agents s)" for a
    using all_agents_closed [OF sh cl stop] that by blast
  have "inflight a = []" if "a \<in> set (agents s)" for a
  proof -
    from that obtain w where w: "w < length (agents s)" "a = agents s ! w"
      by (auto simp: in_set_conv_nth)
    from shape_inv_agent [OF sh w(1)] closed [OF that] w(2) show ?thesis
      by (auto simp: agent_ok_def agent_closed_def inflight_def)
  qed
  then have "concat (map inflight (agents s)) = []" by simp
  with re have rec: "mset (received (trace s)) = mset [0..<task_index s]"
    by (simp add: results_inv_def)
  from fin disp have "stokes_var s \<noteq> None"
    by (auto simp: master_finish_def split: option.splits)
  with re have "received (trace s) \<noteq> []" by (simp add: results_inv_def)
  with rec have ti: "0 < task_index s" by (cases "task_index s") auto
  from se have "length (start_sends (trace s)) = task_index s"
    using length_map [of "\<lambda>wt. t_index (snd wt)" "start_sends (trace s)"]
    by (simp add: sends_inv_def)
  with ti have "start_sends (trace s) \<noteq> []" by auto
  then obtain wt where "wt \<in> set (start_sends (trace s))" by (cases "start_sends (trace s)") auto
  with se have w0: "fst wt < length (agents s)" by (auto simp: sends_inv_def)
  then have "agents s ! fst wt \<in> set (agents s)" by simp
  from closed [OF this] have "got_exit (agents s ! fst wt)"
    by (simp add: agent_closed_def got_exit_def)
  with sh w0 have B: "int (task_index s) = p_n_batches (sys_partition s)"
    by (auto simp: shape_inv_def)
  from sh w0 show W: "0 < num_workers s" by (simp add: shape_inv_def)
  from closed have "filter agent_closed (agents s) = agents s" by simp
  with cl sh W show "int (closed_workers s) = num_workers s"
    by (simp add: closed_inv_def shape_inv_def)
  from B show tiB: "task_index s = nat (p_n_batches (sys_partition s))" by simp
  from se tiB show "map (\<lambda>wt. t_index (snd wt)) (start_sends (trace s)) =
           [0..<nat (p_n_batches (sys_partition s))]"
    by (simp add: sends_inv_def)
  have "got_exit (agents s ! w)" if "w < length (agents s)" for w
    using closed [of "agents s ! w"] that by (simp add: agent_closed_def got_exit_def)
  with se have "\<forall>w. count_list (exit_sends (trace s)) w = (if w < length (agents s) then 1 else 0)"
    by (simp add: sends_inv_def)
  from count_list_upt_mset [OF this] sh
  show "mset (exit_sends (trace s)) = mset [0..<nat (num_workers s)]"
    by (simp add: shape_inv_def)
  from rec tiB show "mset (received (trace s)) = mset [0..<nat (p_n_batches (sys_partition s))]"
    by simp
qed

lemma run_frame:
  "run acts s = Some s' \<Longrightarrow>
     sys_partition s' = sys_partition s \<and> num_workers s' = num_workers s \<and>
     length (agents s') = length (agents s) \<and> interpolate_model s' = interpolate_model s"
proof (induction acts arbitrary: s)
  case Nil
  then show ?case by simp
next
  case (Cons a acts)
  from Cons.prems obtain s1 where s1: "step a s = Some s1" "run acts s1 = Some s'"
    by (auto split: option.splits)
  from Cons.IH [OF s1(2)] step_frame [OF s1(1)] show ?case by simp
qed

lemma finish_trace:
  assumes "status s = Dispatching" and "status (master_finish s) = Finished"
    and "FileClose F_stokes \<notin> set (trace s)"
  shows "\<exists>l. trace (master_finish s) =
        trace s @ [WriteLambda l, FileClose F_stokes] @
          (if interpolate_model s then [FileClose F_model] else [])"
    and "start_sends (trace (master_finish s)) = start_sends (trace s)"
    and "exit_sends (trace (master_finish s)) = exit_sends (trace s)"
    and "received (trace (master_finish s)) = received (trace s)"
    and "cells d (trace (master_finish s)) = cells d (trace s)"
    and "takeWhile (\<lambda>e. e \<noteq> FileClose F_stokes) (trace (master_finish s)) =
           trace s @ [WriteLambda (stokes_lambda (hd (the (stokes_var s))))]"
proof -
  from assms(1,2) obtain s0 rest where 1: "stokes_var s = Some (s0 # rest)"
    "master_finish s = s\<lparr>trace := trace s @ [WriteLambda (stokes_lambda s0), FileClose F_stokes] @
                     (if interpolate_model s then [FileClose F_model] else []),
            status := Finished\<rparr>"
    by (rule master_finish_Finished)
  show "\<exists>l. trace (master_finish s) =
        trace s @ [WriteLambda l, FileClose F_stokes] @
          (if interpolate_model s then [FileClose F_model] else [])"
    by (simp add: 1(2))
  show "start_sends (trace (master_finish s)) = start_sends (trace s)"
    "exit_sends (trace (master_finish s)) = exit_sends (trace s)"
    "received (trace (master_finish s)) = received (trace s)"
    "cells d (trace (master_finish s)) = cells d (trace s)"
    by (simp_all add: 1(2) start_sends_append exit_sends_append received_append cells_append)
  show "takeWhile (\<lambda>e. e \<noteq> FileClose F_stokes) (trace (master_finish s)) =
           trace s @ [WriteLambda (stokes_lambda (hd (the (stokes_var s))))]"
    using assms(3) by (simp add: 1 takeWhile_append)
qed

lemma sends_before_close:
  assumes "tr = pre @ [WriteLambda l, FileClose F_stokes] @ post"
    and "FileClose F_stokes \<notin> set pre"
    and "start_sends tr = start_sends pre" and "exit_sends tr = exit_sends pre"
  shows "start_sends (takeWhile (\<lambda>e. e \<noteq> FileClose F_stokes) tr) = start_sends tr"
    and "exit_sends (takeWhile (\<lambda>e. e \<noteq> FileClose F_stokes) tr) = exit_sends tr"
proof -
  have "takeWhile (\<lambda>e. e \<noteq> FileClose F_stokes) tr = pre @ [WriteLambda l]"
    using assms(1,2) by (simp add: takeWhile_append)
  with assms(3,4) show "start_sends (takeWhile (\<lambda>e. e \<noteq> FileClose F_stokes) tr) = start_sends tr"
    "exit_sends (takeWhile (\<lambda>e. e \<noteq> FileClose F_stokes) tr) = exit_sends tr"
    by (simp_all add: start_sends_append exit_sends_append)
qed

lemma setup_collapse:
  "(case fst (mpi_master_setup it tr rx ry) of Inr s \<Rightarrow> True | Inl e \<Rightarrow> False) \<Longrightarrow>
   mpi_master_setup it tr rx ry =
     (Inr (projr (fst (mpi_master_setup it tr rx ry))), snd (mpi_master_setup it tr rx ry))"
  by (cases "mpi_master_setup it tr rx ry") (auto split: sum.splits)

lemma filter_writes_cell_count:
  "length (filter (writes_cell d y x) tr) = count_list (cells d tr) (y, x)"
  by (induction d tr rule: cells.induct) auto

lemma count_list_distinct: "distinct xs \<Longrightarrow> x \<in> set xs \<Longrightarrow> count_list xs x = 1"
  by (induction xs) auto

lemma mset_concat_map_cong:
  "mset xs = mset ys \<Longrightarrow> mset (concat (map f xs)) = mset (concat (map f ys))"
proof -
  have "mset (concat (map f zs)) = (\<Sum>z\<in>#mset zs. mset (f z))" for zs
    by (induction zs) simp_all
  then show "mset xs = mset ys \<Longrightarrow> mset (concat (map f xs)) = mset (concat (map f ys))"
    by simp
qed

lemma batch_cells_swap: "batch_cells p i = map prod.swap (batch_pixels p i)"
  by (simp add: batch_cells_def batch_pixels_def zip_commute [of "divY p ! i"] prod.swap_def case_prod_beta)

lemma all_batch_cells:
  assumes "make_partition nx ny rangex rangey b = Inr p"
  shows "distinct (concat (map (batch_cells p) [0..<nat (p_n_batches p)]))"
    and "set (concat (map (batch_cells p) [0..<nat (p_n_batches p)])) =
           prod.swap ` requested_pixels nx ny rangex rangey"
proof -
  let ?zs = "zip (meshgrid_X (axis_coords rangex nx) (axis_coords rangey ny))
         (meshgrid_Y (axis_coords rangex nx) (axis_coords rangey ny))"
  have "batch_cells p = (\<lambda>i. map prod.swap (batch_pixels p i))"
    by (rule ext) (rule batch_cells_swap)
  then have "concat (map (batch_cells p) [0..<nat (p_n_batches p)]) =
      map prod.swap (concat (map (batch_pixels p) [0..<nat (p_n_batches p)]))"
    by (simp add: map_concat comp_def)
  then have eq: "concat (map (batch_cells p) [0..<nat (p_n_batches p)]) = map prod.swap ?zs"
    by (simp only: concat_batches [OF assms])
  have "distinct ?zs"
    by (simp only: distinct_zip_meshgrid distinct_axis_coords)
  then show "distinct (concat (map (batch_cells p) [0..<nat (p_n_batches p)]))"
    by (simp add: eq distinct_map)
  have "set ?zs = requested_pixels nx ny rangex rangey"
    by (simp only: set_zip_meshgrid set_axis_coords requested_pixels_def)
  then show "set (concat (map (batch_cells p) [0..<nat (p_n_batches p)])) =
           prod.swap ` requested_pixels nx ny rangex rangey"
    by (simp add: eq)
qed

lemma nonmpi_pixel_cells:
  assumes "nonmpi_pixel m cs flag pix (tr, s) = (e, tr', s')"
  shows "FileClose F_stokes \<in> set tr' \<longleftrightarrow> FileClose F_stokes \<in> set tr"
    and "e = None \<Longrightarrow> d \<in> {DS_I, DS_Q, DS_U, DS_V} \<Longrightarrow>
         cells d tr' = cells d tr @ [(int (fst pix), int (snd pix))]"
  using assms
  by (auto simp: nonmpi_pixel_def Let_def cells_append split: option.splits if_splits)

lemma nonmpi_loop_cells:
  assumes "nonmpi_loop m cs flag pixels (tr, s) = (e, tr', s')"
  shows "(FileClose F_stokes \<in> set tr' \<longleftrightarrow> FileClose F_stokes \<in> set tr) \<and>
    (e = None \<longrightarrow> (\<forall>d \<in> {DS_I, DS_Q, DS_U, DS_V}.
         cells d tr' = cells d tr @ map (\<lambda>pix. (int (fst pix), int (snd pix))) pixels))"
  using assms
proof (induction pixels arbitrary: tr s)
  case Nil
  then show ?case by simp
next
  case (Cons pix rest)
  obtain e1 tr1 s1 where p: "nonmpi_pixel m cs flag pix (tr, s) = (e1, tr1, s1)"
    by (cases "nonmpi_pixel m cs flag pix (tr, s)") auto
  note P = nonmpi_pixel_cells [OF p]
  show ?case
  proof (cases e1)
    case None
    with Cons.prems p have "nonmpi_loop m cs flag rest (tr1, s1) = (e, tr', s')" by simp
    from Cons.IH [OF this] P(1) P(2) [OF None] show ?thesis by simp
  next
    case (Some err)
    with Cons.prems p have "e = Some err" "tr' = tr1" by simp_all
    with P(1) show ?thesis by simp
  qed
qed

lemma raster_cells:
  "distinct (map (\<lambda>pix. (int (fst pix), int (snd pix))) (raster ny nx))"
  "set (map (\<lambda>pix. (int (fst pix), int (snd pix))) (raster ny nx)) = {0..<ny} \<times> {0..<nx}"
proof -
  have "distinct (concat (map (\<lambda>iy. map (\<lambda>ix. (iy, ix)) xs) ys))"
    if "distinct xs" "distinct ys" for xs ys :: "nat list"
    using that by (induction ys) (auto simp: distinct_map inj_on_def)
  then have d: "distinct (raster ny nx)"
    by (simp add: raster_def)
  have "inj_on (\<lambda>pix :: nat \<times> nat. (int (fst pix), int (snd pix))) A" for A
    by (auto simp: inj_on_def prod_eq_iff)
  with d show "distinct (map (\<lambda>pix. (int (fst pix), int (snd pix))) (raster ny nx))"
    by (simp add: distinct_map)
  show "set (map (\<lambda>pix. (int (fst pix), int (snd pix))) (raster ny nx)) = {0..<ny} \<times> {0..<nx}"
  proof (rule set_eqI)
    fix c :: "int \<times> int"
    obtain y x where c: "c = (y, x)" by (cases c)
    have "c \<in> set (map (\<lambda>pix. (int (fst pix), int (snd pix))) (raster ny nx)) \<longleftrightarrow>
        (\<exists>iy < nat ny. \<exists>ix < nat nx. y = int iy \<and> x = int ix)"
      by (force simp: raster_def c image_iff)
    also have "\<dots> \<longleftrightarrow> 0 \<le> y \<and> y < ny \<and> 0 \<le> x \<and> x < nx"
    proof
      assume "\<exists>iy < nat ny. \<exists>ix < nat nx. y = int iy \<and> x = int ix"
      then show "0 \<le> y \<and> y < ny \<and> 0 \<le> x \<and> x < nx" by auto
    next
      assume a: "0 \<le> y \<and> y < ny \<and> 0 \<le> x \<and> x < nx"
      then have "nat y < nat ny" "nat x < nat nx" "y = int (nat y)" "x = int (nat x)" by simp_all
      then show "\<exists>iy < nat ny. \<exists>ix < nat nx. y = int iy \<and> x = int ix" by blast
    qed
    finally show "c \<in> set (map (\<lambda>pix. (int (fst pix), int (snd pix))) (raster ny nx)) \<longleftrightarrow>
        c \<in> {0..<ny} \<times> {0..<nx}"
      by (simp add: c)
  qed
qed

lemma store_creation_serial_quiet:
  "cells d (stokes_store_events m) = []"
  "cells d (create_model_store_serial m) = []"
  "FileClose F_stokes \<notin> set (stokes_store_events m)"
  "FileClose F_stokes \<notin> set (create_model_store_serial m)"
  by (simp_all add: stokes_store_events_def create_model_store_serial_def split: option.splits)

lemma create_stokes_store_cases:
  obtains (accepted) "chunks_ok [model_ny m, model_nx m, n_lambda_sir m] [64, 64, n_lambda_sir m]"
      "create_stokes_store m = (None, stokes_store_events m)"
  | (refused) "\<not> chunks_ok [model_ny m, model_nx m, n_lambda_sir m] [64, 64, n_lambda_sir m]"
      "create_stokes_store m = (Some ValueError, [FileOpen F_stokes (output_file m)])"
  by (cases "chunks_ok [model_ny m, model_nx m, n_lambda_sir m] [64, 64, n_lambda_sir m]")
     (simp_all add: create_stokes_store_def)

lemma serial_cells:
  assumes m: "self_model it = Some m"
    and w: "nonmpi_work it [] rangex rangey = (e, it', tr)"
    and c: "FileClose F_stokes \<in> set tr"
    and d: "d \<in> {DS_I, DS_Q, DS_U, DS_V}"
  shows "cells d (takeWhile (\<lambda>ev. ev \<noteq> FileClose F_stokes) tr) =
     map (\<lambda>pix. (int (fst pix), int (snd pix))) (raster (model_ny m) (model_nx m))"
proof (cases m rule: create_stokes_store_cases)
  case refused
  with w m have "tr = [FileOpen F_stokes (output_file m)]"
    by (simp add: nonmpi_work_def Let_def)
  with c show ?thesis by simp
next
  case accepted
  let ?it1 = "(if atmosphere_type m = ''MURAM''
                      then it\<lparr>self_cubes := Some (muram_cubes m),
                              self_n_pixels := Some (model_nx m * model_ny m)\<rparr>
                      else it)"
  let ?it2 = "?it1\<lparr>f_stokes_out := Some (output_file m)\<rparr>"
  let ?it3 = "(case interpolated_model_filename m of
                        None \<Rightarrow> ?it2
                      | Some name \<Rightarrow> ?it2\<lparr>f_model_out := Some name\<rparr>)"
  let ?tr3 = "stokes_store_events m @ create_model_store_serial m"
  obtain e1 tr4 s4 where loop: "nonmpi_loop m (self_cubes ?it3) (interpolated_model_filename m \<noteq> None)
                     (raster (model_ny m) (model_nx m)) (?tr3, None) = (e1, tr4, s4)"
    by (metis prod_cases3)
  note L = nonmpi_loop_cells [OF loop]
  from L have nc: "FileClose F_stokes \<notin> set tr4"
    by (simp add: store_creation_serial_quiet)
  from w m loop accepted(2) have tr: "e1 = None \<and> (\<exists>s5 post. tr = tr4 @ [WriteLambda s5, FileClose F_stokes] @ post)"
    using c nc
    by (auto simp: nonmpi_work_def Let_def split: option.splits)
  then obtain s5 post where tr': "tr = tr4 @ [WriteLambda s5, FileClose F_stokes] @ post" by blast
  have "takeWhile (\<lambda>ev. ev \<noteq> FileClose F_stokes) tr = tr4 @ [WriteLambda s5]"
    using nc by (simp add: tr' takeWhile_append)
  moreover from L tr d have "cells d tr4 = cells d ?tr3 @
      map (\<lambda>pix. (int (fst pix), int (snd pix))) (raster (model_ny m) (model_nx m))"
    by blast
  ultimately show ?thesis
    by (simp add: cells_append store_creation_serial_quiet)
qed

lemma finished_store_closed:
  assumes su: "mpi_master_setup it [] rangex rangey = (Inr s0, it')"
    and run: "run acts s0 = Some s" and fin: "status s = Finished"
  shows "FileClose F_stokes \<in> set (trace s)"
proof -
  from su have inv0: "dispatch_inv s0" by (rule setup_dispatch_inv)
  from su have d0: "status s0 = Dispatching" by (rule setup_Inr)
  from run_finished [OF inv0 d0 run fin] obtain acts1 s1 where
    s1: "dispatch_inv s1" "status s1 = Dispatching" "s = master_finish s1"
    by blast
  from fin s1(3) have fin1: "status (master_finish s1) = Finished" by simp
  from s1(1) have "FileClose F_stokes \<notin> set (trace s1)"
    by (simp add: dispatch_inv_def results_inv_def)
  from finish_trace(1) [OF s1(2) fin1 this] show ?thesis
    by (auto simp: s1(3))
qed

lemma distributed_cells:
  assumes su: "mpi_master_setup it [] rangex rangey = (Inr s0, it')"
    and run: "run acts s0 = Some s" and fin: "status s = Finished"
    and d: "d \<in> {DS_I, DS_Q, DS_U, DS_V}"
  shows "mset (cells d (takeWhile (\<lambda>ev. ev \<noteq> FileClose F_stokes) (trace s))) =
     mset (concat (map (batch_cells (sys_partition s0)) [0..<nat (p_n_batches (sys_partition s0))]))"
proof -
  from su have inv0: "dispatch_inv s0" by (rule setup_dispatch_inv)
  from su have d0: "status s0 = Dispatching" by (rule setup_Inr)
  from run_finished [OF inv0 d0 run fin] obtain acts1 s1 where
    s1: "run acts1 s0 = Some s1" "dispatch_inv s1" "status s1 = Dispatching"
      "\<not> int (closed_workers s1) < num_workers s1" "s = master_finish s1"
    by blast
  from fin s1(5) have fin1: "status (master_finish s1) = Finished" by simp
  note F = finish_facts [OF s1(2,3,4) fin1]
  from s1(2) have re: "results_inv s1" by (simp add: dispatch_inv_def)
  from re have nc: "FileClose F_stokes \<notin> set (trace s1)" by (simp add: results_inv_def)
  note T = finish_trace [OF s1(3) fin1 nc]
  have p: "sys_partition s1 = sys_partition s0" using run_frame [OF s1(1)] by simp
  have "cells d (takeWhile (\<lambda>ev. ev \<noteq> FileClose F_stokes) (trace s)) = cells d (trace s1)"
    by (simp add: s1(5) T(6) cells_append)
  also have "\<dots> = concat (map (batch_cells (sys_partition s0)) (received (trace s1)))"
    using re d by (auto simp: results_inv_def p)
  finally have "mset (cells d (takeWhile (\<lambda>ev. ev \<noteq> FileClose F_stokes) (trace s))) =
      mset (concat (map (batch_cells (sys_partition s0)) (received (trace s1))))"
    by simp
  also have "\<dots> = mset (concat (map (batch_cells (sys_partition s0))
      [0..<nat (p_n_batches (sys_partition s0))]))"
    using F(6) by (intro mset_concat_map_cong) (simp add: p)
  finally show ?thesis .
qed

lemma nonmpi_pixel_cubes:
  "\<exists>ws r. nonmpi_pixel m (Some c) flag pix (tr, s) = (None, tr @ ws, Some r) \<and>
      length (filter is_cell_write ws) = 4 \<and> model_dataset_shapes ws = []"
  by (simp add: nonmpi_pixel_def Let_def)

lemma model_dataset_shapes_append:
  "model_dataset_shapes (xs @ ys) = model_dataset_shapes xs @ model_dataset_shapes ys"
  by (induction xs rule: model_dataset_shapes.induct) simp_all

lemma nonmpi_loop_cubes:
  "\<exists>tr' s'. nonmpi_loop m (Some c) flag pixels (tr, s) = (None, tr', s') \<and>
      length (filter is_cell_write tr') = length (filter is_cell_write tr) + 4 * length pixels \<and>
      model_dataset_shapes tr' = model_dataset_shapes tr \<and>
      (pixels \<noteq> [] \<longrightarrow> s' \<noteq> None)"
proof (induction pixels arbitrary: tr s)
  case Nil
  show ?case by simp
next
  case (Cons pix rest)
  obtain ws r where step: "nonmpi_pixel m (Some c) flag pix (tr, s) = (None, tr @ ws, Some r)"
    and ws: "length (filter is_cell_write ws) = 4" "model_dataset_shapes ws = []"
    using nonmpi_pixel_cubes by blast
  obtain tr' s' where rest: "nonmpi_loop m (Some c) flag rest (tr @ ws, Some r) = (None, tr', s')"
    and cnt: "length (filter is_cell_write tr') =
        length (filter is_cell_write (tr @ ws)) + 4 * length rest"
    and sh: "model_dataset_shapes tr' = model_dataset_shapes (tr @ ws)"
    and s': "rest \<noteq> [] \<longrightarrow> s' \<noteq> None"
    using Cons.IH by blast
  have "s' \<noteq> None"
  proof (cases rest)
    case Nil
    with rest show ?thesis by auto
  next
    case Cons
    with s' show ?thesis by simp
  qed
  with step rest cnt sh ws show ?case by (simp add: model_dataset_shapes_append)
qed

lemma chunks_ok_grid:
  "chunks_ok [model_ny m, model_nx m, n_lambda_sir m] [64, 64, n_lambda_sir m] \<longleftrightarrow>
     64 \<le> model_ny m \<and> 64 \<le> model_nx m \<and> 0 < n_lambda_sir m"
  by (auto simp: chunks_ok_def)

lemma create_stokes_store_accepts:
  assumes "64 \<le> model_nx m" "64 \<le> model_ny m" "0 < n_lambda_sir m"
  shows "create_stokes_store m = (None, stokes_store_events m)"
  using assms by (simp add: create_stokes_store_def chunks_ok_grid)

lemma create_stokes_store_refuses:
  assumes "model_nx m < 64 \<or> model_ny m < 64"
  shows "create_stokes_store m = (Some ValueError, [FileOpen F_stokes (output_file m)])"
  using assms by (auto simp: create_stokes_store_def chunks_ok_grid)

lemma nonmpi_work_muram:
  assumes m: "self_model it = Some m"
    and mu: "atmosphere_type m = ''MURAM''"
    and nx: "64 \<le> model_nx m" and ny: "64 \<le> model_ny m" and nl: "0 < n_lambda_sir m"
  shows "\<exists>it' tr4 s.
     nonmpi_work it tr rangex rangey =
       (if interpolated_model_filename m = None \<and> f_model_out it = None
        then (Some AttributeError, it', tr4 @ [WriteLambda (stokes_lambda s), FileClose F_stokes])
        else (None, it', tr4 @ [WriteLambda (stokes_lambda s), FileClose F_stokes, FileClose F_model])) \<and>
     nonmpi_loop m (Some (muram_cubes m)) (interpolated_model_filename m \<noteq> None)
        (raster (model_ny m) (model_nx m))
        (tr @ stokes_store_events m @ create_model_store_serial m, None) = (None, tr4, Some s) \<and>
     length (filter is_cell_write tr4) =
       length (filter is_cell_write tr) + 4 * (nat (model_ny m) * nat (model_nx m)) \<and>
     model_dataset_shapes tr4 =
       model_dataset_shapes tr @
         (if interpolated_model_filename m = None then []
          else [[model_ny m, model_nx m, 7, n_tau m]])"
proof -
  let ?tr3 = "tr @ stokes_store_events m @ create_model_store_serial m"
  let ?flag = "interpolated_model_filename m \<noteq> None"
  note acc = create_stokes_store_accepts [OF nx ny nl]
  obtain tr4 s4 where loop: "nonmpi_loop m (Some (muram_cubes m)) ?flag
        (raster (model_ny m) (model_nx m)) (?tr3, None) = (None, tr4, s4)"
    and cnt: "length (filter is_cell_write tr4) =
        length (filter is_cell_write ?tr3) + 4 * length (raster (model_ny m) (model_nx m))"
    and sh: "model_dataset_shapes tr4 = model_dataset_shapes ?tr3"
    and s4: "raster (model_ny m) (model_nx m) \<noteq> [] \<longrightarrow> s4 \<noteq> None"
    using nonmpi_loop_cubes by blast
  have "length (raster (model_ny m) (model_nx m)) \<noteq> 0"
    using nx ny by (simp add: length_raster)
  with s4 obtain s where s: "s4 = Some s" by auto
  have store: "filter is_cell_write ?tr3 = filter is_cell_write tr"
    by (simp add: stokes_store_events_def create_model_store_serial_def split: option.splits)
  have shapes: "model_dataset_shapes ?tr3 = model_dataset_shapes tr @
         (if interpolated_model_filename m = None then []
          else [[model_ny m, model_nx m, 7, n_tau m]])"
    by (simp add: model_dataset_shapes_append stokes_store_events_def
        create_model_store_serial_def split: option.splits)
  show ?thesis
  proof (cases "interpolated_model_filename m")
    case None
    show ?thesis
    proof (cases "f_model_out it")
      case None
      with \<open>interpolated_model_filename m = None\<close> m mu acc loop s cnt store sh shapes
      show ?thesis
        by (simp add: nonmpi_work_def Let_def length_raster)
    next
      case (Some name)
      with \<open>interpolated_model_filename m = None\<close> m mu acc loop s cnt store sh shapes
      show ?thesis
        by (simp add: nonmpi_work_def Let_def length_raster)
    qed
  next
    case (Some name)
    with m mu acc loop s cnt store sh shapes
    show ?thesis
      by (simp add: nonmpi_work_def Let_def length_raster)
  qed
qed

lemma nonmpi_work_collapse:
  "nonmpi_work it tr rx ry =
     (fst (nonmpi_work it tr rx ry), fst (snd (nonmpi_work it tr rx ry)),
      snd (snd (nonmpi_work it tr rx ry)))"
  by simp

lemma nonmpi_work_muram_closes:
  assumes "self_model it = Some m" "atmosphere_type m = ''MURAM''"
    "64 \<le> model_nx m" "64 \<le> model_ny m" "0 < n_lambda_sir m"
  shows "FileClose F_stokes \<in> set (snd (snd (nonmpi_work it tr rangex rangey)))"
proof -
  from nonmpi_work_muram [OF assms, of tr rangex rangey] show ?thesis
    by (auto split: if_splits)
qed

text \<open>
  Claim C2. Let the requested pixel range lie inside the grid. In a serial run that gets
  as far as closing the spectra file (every run that completes does), and in a
  distributed run that reaches the end of \<^verbatim>\<open>mpi_master_work\<close> under any interleaving,
  each of the datasets I, Q, U and V is assigned exactly once at every requested cell
  \<open>(y, x)\<close> before the spectra file is closed.
\<close>

theorem every_requested_pixel_written_once:
  assumes m: "self_model it = Some m"
    and grid: "requested_pixels (model_nx m) (model_ny m) rangex rangey \<subseteq>
               {0..<model_nx m} \<times> {0..<model_ny m}"
    and px: "(x, y) \<in> requested_pixels (model_nx m) (model_ny m) rangex rangey"
    and d: "d \<in> {DS_I, DS_Q, DS_U, DS_V}"
  shows "(\<forall>e it' tr. nonmpi_work it [] rangex rangey = (e, it', tr) \<and>
            FileClose F_stokes \<in> set tr \<longrightarrow>
          length (filter (writes_cell d y x)
                   (takeWhile (\<lambda>ev. ev \<noteq> FileClose F_stokes) tr)) = 1) \<and>
    (\<forall>s0 it' acts s. mpi_master_setup it [] rangex rangey = (Inr s0, it') \<and>
            run acts s0 = Some s \<and> status s = Finished \<longrightarrow>
          FileClose F_stokes \<in> set (trace s) \<and>
          length (filter (writes_cell d y x)
                   (takeWhile (\<lambda>ev. ev \<noteq> FileClose F_stokes) (trace s))) = 1)"
proof (intro conjI allI impI)
  fix e it' tr
  assume a: "nonmpi_work it [] rangex rangey = (e, it', tr) \<and> FileClose F_stokes \<in> set tr"
  let ?cs = "map (\<lambda>pix. (int (fst pix), int (snd pix))) (raster (model_ny m) (model_nx m))"
  from a have "cells d (takeWhile (\<lambda>ev. ev \<noteq> FileClose F_stokes) tr) = ?cs"
    using serial_cells [OF m _ _ d] by blast
  moreover from grid px have "(y, x) \<in> set ?cs"
    by (auto simp: raster_cells(2) simp del: set_map)
  ultimately show "length (filter (writes_cell d y x)
                   (takeWhile (\<lambda>ev. ev \<noteq> FileClose F_stokes) tr)) = 1"
    using raster_cells(1) [of "model_ny m" "model_nx m"]
    by (simp add: filter_writes_cell_count count_list_distinct del: set_map)
next
  fix s0 it' acts s
  assume a: "mpi_master_setup it [] rangex rangey = (Inr s0, it') \<and>
            run acts s0 = Some s \<and> status s = Finished"
  then have su: "mpi_master_setup it [] rangex rangey = (Inr s0, it')"
    and run: "run acts s0 = Some s" and fin: "status s = Finished" by simp_all
  from finished_store_closed [OF su run fin]
  show "FileClose F_stokes \<in> set (trace s)" .
  let ?all = "concat (map (batch_cells (sys_partition s0)) [0..<nat (p_n_batches (sys_partition s0))])"
  from su m have p: "make_partition (model_nx m) (model_ny m) rangex rangey (self_batch it) =
      Inr (sys_partition s0)"
    by (cases rule: setup_Inr) simp
  note A = all_batch_cells [OF p]
  from px have "prod.swap (x, y) \<in> prod.swap ` requested_pixels (model_nx m) (model_ny m) rangex rangey"
    by (rule imageI)
  then have "(y, x) \<in> set ?all"
    by (simp only: A(2) prod.swap_def fst_conv snd_conv)
  with A(1) have "count_list ?all (y, x) = 1" by (rule count_list_distinct)
  then have "count (mset ?all) (y, x) = 1" by (simp add: count_mset)
  then have "count (mset (cells d (takeWhile (\<lambda>ev. ev \<noteq> FileClose F_stokes) (trace s)))) (y, x) = 1"
    by (simp only: distributed_cells [OF su run fin d])
  then show "length (filter (writes_cell d y x)
                   (takeWhile (\<lambda>ev. ev \<noteq> FileClose F_stokes) (trace s))) = 1"
    by (simp add: filter_writes_cell_count count_mset)
qed

theorem every_requested_pixel_written_once_witness:
  "length (filter (writes_cell DS_I 0 1)
      (takeWhile (\<lambda>ev. ev \<noteq> FileClose F_stokes)
        (snd (snd (nonmpi_work (mpi_iterator 2 1 (example_model 64 64 (Some ''model.h5'')))
                     [] (Some (0, 2)) (Some (0, 1))))))) = 1 \<and>
   (\<exists>s0 it' s.
      mpi_master_setup (mpi_iterator 2 1 (example_model 64 64 (Some ''model.h5''))) []
        (Some (0, 2)) (Some (0, 1)) = (Inr s0, it') \<and>
      run one_agent_two_batches s0 = Some s \<and> status s = Finished \<and>
      length (filter (writes_cell DS_I 0 1)
        (takeWhile (\<lambda>ev. ev \<noteq> FileClose F_stokes) (trace s))) = 1)"
proof -
  let ?m = "example_model 64 64 (Some ''model.h5'')"
  let ?it = "mpi_iterator 2 1 ?m"
  let ?rx = "Some (0, 2) :: (int \<times> int) option"
  let ?ry = "Some (0, 1) :: (int \<times> int) option"
  have m: "self_model ?it = Some ?m" by (simp add: mpi_iterator_def)
  have grid: "requested_pixels (model_nx ?m) (model_ny ?m) ?rx ?ry \<subseteq>
               {0..<model_nx ?m} \<times> {0..<model_ny ?m}"
    by (auto simp: requested_pixels_def requested_axis_def example_model_def)
  have px: "(1, 0) \<in> requested_pixels (model_nx ?m) (model_ny ?m) ?rx ?ry"
    by (simp add: requested_pixels_def requested_axis_def example_model_def)
  have d: "DS_I \<in> {DS_I, DS_Q, DS_U, DS_V}" by simp
  note W = every_requested_pixel_written_once [OF m grid px d]
  have c: "FileClose F_stokes \<in> set (snd (snd (nonmpi_work ?it [] ?rx ?ry)))"
    by (rule nonmpi_work_muram_closes [OF m]) (simp_all add: example_model_def)
  from W nonmpi_work_collapse [of ?it "[]" ?rx ?ry] c
  have serial: "length (filter (writes_cell DS_I 0 1)
      (takeWhile (\<lambda>ev. ev \<noteq> FileClose F_stokes)
        (snd (snd (nonmpi_work ?it [] ?rx ?ry))))) = 1"
    by blast
  let ?t = "mpi_master_setup ?it [] ?rx ?ry"
  have "case fst ?t of Inr s \<Rightarrow> True | Inl e \<Rightarrow> False"
    by code_simp
  then have su: "?t = (Inr (projr (fst ?t)), snd ?t)"
    by (rule setup_collapse)
  have "map_option status (run one_agent_two_batches (projr (fst ?t))) = Some Finished"
    by code_simp
  then obtain s where s: "run one_agent_two_batches (projr (fst ?t)) = Some s"
    "status s = Finished"
    by auto
  from W su s have "length (filter (writes_cell DS_I 0 1)
        (takeWhile (\<lambda>ev. ev \<noteq> FileClose F_stokes) (trace s))) = 1"
    by blast
  with su s serial show ?thesis by blast
qed

text \<open>
  Claim C9, amended. Take an iterator whose attribute \<^verbatim>\<open>f_model_out\<close> has never been
  assigned (as after the constructor) and whose model requests no interpolated model. Then
  \<^verbatim>\<open>nonmpi_work\<close> never returns normally. When the atmosphere is MURAM and the store
  accepts the chunk shape (both \<open>nx\<close> and \<open>ny\<close> are at least 64 and \<open>n_lambda_sir\<close> is
  positive), the exception is the \<^verbatim>\<open>AttributeError\<close> of line 181, raised after the
  spectra of all \<open>ny * nx\<close> pixels were written (four channel rows each) and with the
  closing of the spectra file as the last thing done. When \<open>nx\<close> or \<open>ny\<close> is below 64,
  the exception is the \<^verbatim>\<open>ValueError\<close> of the first \<^verbatim>\<open>create_dataset\<close> (line 139),
  raised when the spectra file has been opened and nothing else was done: no pixel is
  computed.
\<close>

theorem nonmpi_work_without_interpolation_raises:
  assumes "self_model it = Some m"
    and "interpolated_model_filename m = None"
    and "f_model_out it = None"
  shows "fst (nonmpi_work it tr rangex rangey) \<noteq> None \<and>
    (atmosphere_type m = ''MURAM'' \<and> 64 \<le> model_nx m \<and> 64 \<le> model_ny m \<and>
     0 < n_lambda_sir m \<longrightarrow>
       (\<exists>it' tr'. nonmpi_work it tr rangex rangey = (Some AttributeError, it', tr') \<and>
          last tr' = FileClose F_stokes \<and>
          length (filter is_cell_write tr') =
            length (filter is_cell_write tr) + 4 * (nat (model_ny m) * nat (model_nx m)))) \<and>
    (model_nx m < 64 \<or> model_ny m < 64 \<longrightarrow>
       (\<exists>it'. nonmpi_work it tr rangex rangey =
          (Some ValueError, it', tr @ [FileOpen F_stokes (output_file m)])))"
proof (intro conjI impI)
  show "fst (nonmpi_work it tr rangex rangey) \<noteq> None"
  proof (cases m rule: create_stokes_store_cases)
    case refused
    with assms show ?thesis by (simp add: nonmpi_work_def Let_def)
  next
    case accepted
    with assms show ?thesis
      by (simp add: nonmpi_work_def Let_def split: prod.splits option.splits)
  qed
next
  assume h: "atmosphere_type m = ''MURAM'' \<and> 64 \<le> model_nx m \<and> 64 \<le> model_ny m \<and>
     0 < n_lambda_sir m"
  then have "atmosphere_type m = ''MURAM''" "64 \<le> model_nx m" "64 \<le> model_ny m"
    "0 < n_lambda_sir m" by simp_all
  from nonmpi_work_muram [OF assms(1) this, of tr rangex rangey] obtain it' tr4 and s :: stokes where
    w: "nonmpi_work it tr rangex rangey =
       (if interpolated_model_filename m = None \<and> f_model_out it = None
        then (Some AttributeError, it', tr4 @ [WriteLambda (stokes_lambda s), FileClose F_stokes])
        else (None, it', tr4 @ [WriteLambda (stokes_lambda s), FileClose F_stokes, FileClose F_model]))"
    and cnt: "length (filter is_cell_write tr4) =
       length (filter is_cell_write tr) + 4 * (nat (model_ny m) * nat (model_nx m))"
    by blast
  from w cnt assms(2,3)
  show "\<exists>it' tr'. nonmpi_work it tr rangex rangey = (Some AttributeError, it', tr') \<and>
          last tr' = FileClose F_stokes \<and>
          length (filter is_cell_write tr') =
            length (filter is_cell_write tr) + 4 * (nat (model_ny m) * nat (model_nx m))"
    by simp
next
  assume "model_nx m < 64 \<or> model_ny m < 64"
  then have "create_stokes_store m = (Some ValueError, [FileOpen F_stokes (output_file m)])"
    by (rule create_stokes_store_refuses)
  with assms(1)
  show "\<exists>it'. nonmpi_work it tr rangex rangey =
          (Some ValueError, it', tr @ [FileOpen F_stokes (output_file m)])"
    by (simp add: nonmpi_work_def Let_def)
qed

theorem nonmpi_work_without_interpolation_raises_witness:
  "fst (nonmpi_work (serial_iterator (example_model 64 64 None)) [] None None) =
     Some AttributeError \<and>
   last (snd (snd (nonmpi_work (serial_iterator (example_model 64 64 None)) [] None None))) =
     FileClose F_stokes \<and>
   length (filter is_cell_write
     (snd (snd (nonmpi_work (serial_iterator (example_model 64 64 None)) [] None None)))) = 16384"
proof -
  have a: "self_model (serial_iterator (example_model 64 64 None)) = Some (example_model 64 64 None)"
    and b: "interpolated_model_filename (example_model 64 64 None) = None"
    and c: "f_model_out (serial_iterator (example_model 64 64 None)) = None"
    by (simp_all add: serial_iterator_def example_model_def)
  have d: "atmosphere_type (example_model 64 64 None) = ''MURAM'' \<and>
      64 \<le> model_nx (example_model 64 64 None) \<and> 64 \<le> model_ny (example_model 64 64 None) \<and>
      0 < n_lambda_sir (example_model 64 64 None)"
    by (simp add: example_model_def)
  have e: "nat (model_ny (example_model 64 64 None)) * nat (model_nx (example_model 64 64 None)) = 4096"
    by (simp add: example_model_def)
  from nonmpi_work_without_interpolation_raises [OF a b c, of "[]" None None] d e
  show ?thesis by auto
qed

text \<open>
  Claim C9 as stated fails in two ways. On a grid of 2 by 1 pixels the run without
  interpolation raises, but it raises the \<^verbatim>\<open>ValueError\<close> of line 139 when only the
  spectra file has been opened, not an \<^verbatim>\<open>AttributeError\<close> after the last pixel. And an
  iterator whose attribute \<^verbatim>\<open>f_model_out\<close> was assigned by an earlier run completes a
  run on a grid of 64 by 64 pixels without error although no interpolation is requested.
\<close>

theorem nonmpi_work_without_interpolation_counterexample:
  "nonmpi_work (serial_iterator (example_model 2 1 None)) [] None None =
     (Some ValueError,
      (serial_iterator (example_model 2 1 None))
        \<lparr>self_cubes := Some example_cubes, self_n_pixels := Some 2,
         f_stokes_out := Some ''out.h5''\<rparr>,
      [FileOpen F_stokes ''out.h5'']) \<and>
   interpolated_model_filename (example_model 64 64 None) = None \<and>
   fst (nonmpi_work ((serial_iterator (example_model 64 64 None))\<lparr>f_model_out := Some ''old.h5''\<rparr>)
          [] None None) = None"
proof -
  let ?m = "example_model 64 64 None"
  let ?it = "(serial_iterator ?m)\<lparr>f_model_out := Some ''old.h5''\<rparr>"
  have small: "nonmpi_work (serial_iterator (example_model 2 1 None)) [] None None =
     (Some ValueError,
      (serial_iterator (example_model 2 1 None))
        \<lparr>self_cubes := Some example_cubes, self_n_pixels := Some 2,
         f_stokes_out := Some ''out.h5''\<rparr>,
      [FileOpen F_stokes ''out.h5''])"
    by (simp add: nonmpi_work_def Let_def serial_iterator_def example_model_def
        create_stokes_store_def chunks_ok_def)
  have "self_model ?it = Some ?m" "atmosphere_type ?m = ''MURAM''"
    "64 \<le> model_nx ?m" "64 \<le> model_ny ?m" "0 < n_lambda_sir ?m"
    by (simp_all add: serial_iterator_def example_model_def)
  from nonmpi_work_muram [OF this, of "[]" None None]
  have "fst (nonmpi_work ?it [] None None) = None"
    by auto
  with small show ?thesis by (simp add: example_model_def)
qed

text \<open>
  Claim C10. The attribute \<^verbatim>\<open>stop_after_n_batches\<close> is written by the constructor and
  read by nothing: giving it another value changes no result, no exception, no trace and
  no other attribute of any operation, and the state in which the dispatch loop starts is
  the same, so every distributed run is the same.
\<close>

theorem stop_after_n_batches_never_read:
  "init env tr u b nb =
     (case init env tr u b nb' of
        (Inl e, tr') \<Rightarrow> (Inl e, tr')
      | (Inr it0, tr') \<Rightarrow> (Inr (it0\<lparr>stop_after_n_batches := nb\<rparr>), tr')) \<and>
   get_rank (it\<lparr>stop_after_n_batches := v\<rparr>) n = get_rank it n \<and>
   use_model (it\<lparr>stop_after_n_batches := v\<rparr>) mo root_model =
     (use_model it mo root_model)\<lparr>stop_after_n_batches := v\<rparr> \<and>
   nonmpi_work (it\<lparr>stop_after_n_batches := v\<rparr>) tr rangex rangey =
     (case nonmpi_work it tr rangex rangey of
        (e, it', tr') \<Rightarrow> (e, it'\<lparr>stop_after_n_batches := v\<rparr>, tr')) \<and>
   mpi_master_setup (it\<lparr>stop_after_n_batches := v\<rparr>) tr rangex rangey =
     (case mpi_master_setup it tr rangex rangey of
        (r, it') \<Rightarrow> (r, it'\<lparr>stop_after_n_batches := v\<rparr>))"
proof (intro conjI)
  show "init env tr u b nb =
     (case init env tr u b nb' of
        (Inl e, tr') \<Rightarrow> (Inl e, tr')
      | (Inr it0, tr') \<Rightarrow> (Inr (it0\<lparr>stop_after_n_batches := nb\<rparr>), tr'))"
    by (simp add: init_def)
  show "get_rank (it\<lparr>stop_after_n_batches := v\<rparr>) n = get_rank it n"
    by (simp add: get_rank_def split: option.splits)
  show "use_model (it\<lparr>stop_after_n_batches := v\<rparr>) mo root_model =
     (use_model it mo root_model)\<lparr>stop_after_n_batches := v\<rparr>"
    by (simp add: use_model_def)
  show "nonmpi_work (it\<lparr>stop_after_n_batches := v\<rparr>) tr rangex rangey =
     (case nonmpi_work it tr rangex rangey of
        (e, it', tr') \<Rightarrow> (e, it'\<lparr>stop_after_n_batches := v\<rparr>, tr'))"
  proof (cases "self_model it")
    case None
    then show ?thesis by (simp add: nonmpi_work_def)
  next
    case (Some m)
    show ?thesis
    proof (cases m rule: create_stokes_store_cases)
      case refused
      with Some show ?thesis
        by (cases "atmosphere_type m = ''MURAM''"; simp add: nonmpi_work_def Let_def)
    next
      case accepted
      let ?cs = "if atmosphere_type m = ''MURAM'' then Some (muram_cubes m) else self_cubes it"
      obtain e1 tr4 s4 where loop:
        "nonmpi_loop m ?cs (interpolated_model_filename m \<noteq> None)
           (raster (model_ny m) (model_nx m))
           (tr @ stokes_store_events m @ create_model_store_serial m, None) = (e1, tr4, s4)"
        by (metis prod_cases3)
      show ?thesis
      proof (cases "interpolated_model_filename m")
        case None
        with Some loop accepted(2) show ?thesis
          by (cases e1; cases s4; cases "f_model_out it";
              cases "atmosphere_type m = ''MURAM''"; simp add: nonmpi_work_def Let_def)
      next
        case (Some name)
        with \<open>self_model it = Some m\<close> loop accepted(2) show ?thesis
          by (cases e1; cases s4;
              cases "atmosphere_type m = ''MURAM''"; simp add: nonmpi_work_def Let_def)
      qed
    qed
  qed
  show "mpi_master_setup (it\<lparr>stop_after_n_batches := v\<rparr>) tr rangex rangey =
     (case mpi_master_setup it tr rangex rangey of
        (r, it') \<Rightarrow> (r, it'\<lparr>stop_after_n_batches := v\<rparr>))"
  proof (cases "self_model it")
    case None
    then show ?thesis by (simp add: mpi_master_setup_def)
  next
    case (Some m)
    show ?thesis
    proof (cases "make_partition (model_nx m) (model_ny m) rangex rangey (self_batch it)")
      case (Inl e)
      with Some show ?thesis
        by (cases "atmosphere_type m = ''MURAM''"; simp add: mpi_master_setup_def Let_def)
    next
      case (Inr p)
      show ?thesis
      proof (cases m rule: create_stokes_store_cases)
        case refused
        with Some Inr show ?thesis
          by (cases "atmosphere_type m = ''MURAM''"; simp add: mpi_master_setup_def Let_def)
      next
        case accepted
        with Some Inr show ?thesis
          by (cases "atmosphere_type m = ''MURAM''"; cases "interpolated_model_filename m";
              cases "self_size it"; simp add: mpi_master_setup_def Let_def)
      qed
    qed
  qed
qed

theorem stop_after_n_batches_never_read_witness:
  "fst (mpi_master_setup ((mpi_iterator 2 1 (example_model 64 64 None))\<lparr>stop_after_n_batches := Some 1\<rparr>)
          [] None None) =
   fst (mpi_master_setup (mpi_iterator 2 1 (example_model 64 64 None)) [] None None) \<and>
   fst (nonmpi_work ((mpi_iterator 2 1 (example_model 64 64 None))\<lparr>stop_after_n_batches := Some 1\<rparr>)
          [] None None) =
   fst (nonmpi_work (mpi_iterator 2 1 (example_model 64 64 None)) [] None None)"
  using stop_after_n_batches_never_read
    [where it = "mpi_iterator 2 1 (example_model 64 64 None)" and v = "Some 1" and tr = "[]"
       and rangex = None and rangey = None]
  by (simp split: prod.splits)

lemma rows_written_append:
  "rows_written d (tr @ tr') = rows_written d tr @ rows_written d tr'"
  by (induction tr rule: rows_written.induct) simp_all

lemma example_loop_rows:
  "rows_written DS_I (fst (snd (nonmpi_loop (example_model nx ny None) (Some example_cubes) False
       pixels (tr, s)))) =
   rows_written DS_I tr @ map (\<lambda>pix. (int (fst pix), int (snd pix), [6])) pixels"
proof (induction pixels arbitrary: tr s)
  case Nil
  show ?case by simp
next
  case (Cons pix rest)
  obtain ws r where step: "nonmpi_pixel (example_model nx ny None) (Some example_cubes) False pix (tr, s) =
      (None, tr @ ws, Some r)"
    and ws: "rows_written DS_I ws = [(int (fst pix), int (snd pix), [6])]"
    by (simp add: nonmpi_pixel_def Let_def example_model_def example_cubes_def example_synth_def)
  from step ws Cons.IH [of "tr @ ws" "Some r"] show ?case
    by (simp add: rows_written_append)
qed

lemma mpi_iterator_model: "self_model (mpi_iterator sz b m) = Some m"
  by (simp add: mpi_iterator_def)

lemma example_model_grid:
  "atmosphere_type (example_model nx ny f) = ''MURAM''"
  "model_nx (example_model nx ny f) = nx" "model_ny (example_model nx ny f) = ny"
  "n_lambda_sir (example_model nx ny f) = 1" "n_tau (example_model nx ny f) = 1"
  "interpolated_model_filename (example_model nx ny f) = f"
  "muram_cubes (example_model nx ny f) = example_cubes"
  by (simp_all add: example_model_def)

text \<open>
  Claim C7 fails on the distributed path. For a model of 65 by 64 pixels (so that the
  store accepts the chunk shape) with an interpolated-model file, the serial path creates
  the resampled-model dataset with shape \<open>(ny, nx, 7, n_tau) = (64, 65, 7, 1)\<close>, and the
  distributed path, whose coordinator gets as far as its dispatch loop, with shape
  \<open>(7, ny, nx, n_tau) = (7, 64, 65, 1)\<close>. Without an interpolated-model file neither
  path creates the dataset.
\<close>

theorem model_dataset_layouts_differ:
  "model_dataset_shapes (snd (snd (nonmpi_work
        (mpi_iterator 2 1 (example_model 65 64 (Some ''model.h5''))) []
        (Some (0, 2)) (Some (0, 1))))) = [[64, 65, 7, 1]] \<and>
   \<not> isl (fst (mpi_master_setup
        (mpi_iterator 2 1 (example_model 65 64 (Some ''model.h5''))) []
        (Some (0, 2)) (Some (0, 1)))) \<and>
   model_dataset_shapes (trace (projr (fst (mpi_master_setup
        (mpi_iterator 2 1 (example_model 65 64 (Some ''model.h5''))) []
        (Some (0, 2)) (Some (0, 1)))))) = [[7, 64, 65, 1]] \<and>
   model_dataset_shapes (snd (snd (nonmpi_work
        (mpi_iterator 2 1 (example_model 65 64 None)) []
        (Some (0, 2)) (Some (0, 1))))) = [] \<and>
   \<not> isl (fst (mpi_master_setup
        (mpi_iterator 2 1 (example_model 65 64 None)) []
        (Some (0, 2)) (Some (0, 1)))) \<and>
   model_dataset_shapes (trace (projr (fst (mpi_master_setup
        (mpi_iterator 2 1 (example_model 65 64 None)) []
        (Some (0, 2)) (Some (0, 1)))))) = []"
proof -
  have serial: "model_dataset_shapes (snd (snd (nonmpi_work
        (mpi_iterator 2 1 (example_model 65 64 f)) [] (Some (0, 2)) (Some (0, 1))))) =
      (if f = None then [] else [[64, 65, 7, 1]])" for f
  proof -
    from nonmpi_work_muram [of "mpi_iterator 2 1 (example_model 65 64 f)" "example_model 65 64 f"
        "[]" "Some (0, 2)" "Some (0, 1)"]
    obtain it' tr4 and s :: stokes where
      w: "nonmpi_work (mpi_iterator 2 1 (example_model 65 64 f)) [] (Some (0, 2)) (Some (0, 1)) =
         (if f = None \<and> f_model_out (mpi_iterator 2 1 (example_model 65 64 f)) = None
          then (Some AttributeError, it', tr4 @ [WriteLambda (stokes_lambda s), FileClose F_stokes])
          else (None, it', tr4 @ [WriteLambda (stokes_lambda s), FileClose F_stokes, FileClose F_model]))"
      and sh: "model_dataset_shapes tr4 = (if f = None then [] else [[64, 65, 7, 1]])"
      by (auto simp: mpi_iterator_model example_model_grid)
    from w sh show ?thesis
      by (simp add: model_dataset_shapes_append)
  qed
  have "\<not> isl (fst (mpi_master_setup
        (mpi_iterator 2 1 (example_model 65 64 (Some ''model.h5''))) []
        (Some (0, 2)) (Some (0, 1))))"
    by code_simp
  moreover have "model_dataset_shapes (trace (projr (fst (mpi_master_setup
        (mpi_iterator 2 1 (example_model 65 64 (Some ''model.h5''))) []
        (Some (0, 2)) (Some (0, 1)))))) = [[7, 64, 65, 1]]"
    by code_simp
  moreover have "\<not> isl (fst (mpi_master_setup
        (mpi_iterator 2 1 (example_model 65 64 None)) []
        (Some (0, 2)) (Some (0, 1))))"
    by code_simp
  moreover have "model_dataset_shapes (trace (projr (fst (mpi_master_setup
        (mpi_iterator 2 1 (example_model 65 64 None)) []
        (Some (0, 2)) (Some (0, 1)))))) = []"
    by code_simp
  ultimately show ?thesis
    using serial [of "Some ''model.h5''"] serial [of None] by simp
qed

lemma raster_mem: "(iy, ix) \<in> set (raster ny nx) \<longleftrightarrow> int iy < ny \<and> int ix < nx"
  by (auto simp: raster_def image_iff)

text \<open>
  Claim C1 fails on the serial path. Take a grid of 64 by 64 pixels whose velocity file
  holds momentum (6, with density 2), no interpolated model, and the sub-rectangle
  \<open>rangex = (0, 1)\<close>, \<open>rangey = (0, 1)\<close> of one pixel. The serial path writes the
  spectra of all 4096 pixels of the grid, among them the pixel \<open>(0, 1)\<close> outside the
  rectangle, and writes the spectrum of the undivided velocity 6; the distributed path
  writes the requested pixel only, with the spectrum of the velocity \<open>6 / 2 = 3\<close>.
\<close>

theorem serial_and_distributed_spectra_differ:
  "rows_written DS_I (snd (snd (nonmpi_work (mpi_iterator 2 1 (example_model 64 64 None)) []
         (Some (0, 1)) (Some (0, 1))))) =
     map (\<lambda>pix. (int (fst pix), int (snd pix), [6])) (raster 64 64) \<and>
   (0, 0, [6]) \<in> set (rows_written DS_I (snd (snd (nonmpi_work
         (mpi_iterator 2 1 (example_model 64 64 None)) [] (Some (0, 1)) (Some (0, 1)))))) \<and>
   (0, 1, [6]) \<in> set (rows_written DS_I (snd (snd (nonmpi_work
         (mpi_iterator 2 1 (example_model 64 64 None)) [] (Some (0, 1)) (Some (0, 1)))))) \<and>
   length (rows_written DS_I (snd (snd (nonmpi_work
         (mpi_iterator 2 1 (example_model 64 64 None)) [] (Some (0, 1)) (Some (0, 1)))))) = 4096 \<and>
   \<not> isl (fst (mpi_master_setup (mpi_iterator 2 1 (example_model 64 64 None)) []
           (Some (0, 1)) (Some (0, 1)))) \<and>
   map_option (\<lambda>s. (status s, rows_written DS_I (trace s)))
     (run one_agent_one_batch
        (projr (fst (mpi_master_setup (mpi_iterator 2 1 (example_model 64 64 None)) []
           (Some (0, 1)) (Some (0, 1)))))) = Some (Finished, [(0, 0, [3])])"
proof -
  let ?m = "example_model 64 64 None"
  let ?it = "mpi_iterator 2 1 ?m"
  let ?tr = "snd (snd (nonmpi_work ?it [] (Some (0, 1)) (Some (0, 1))))"
  from nonmpi_work_muram [of ?it ?m "[]" "Some (0, 1)" "Some (0, 1)"]
  obtain tr4 and s :: stokes where
    w: "?tr = tr4 @ [WriteLambda (stokes_lambda s), FileClose F_stokes]"
    and loop: "nonmpi_loop ?m (Some example_cubes) False (raster 64 64)
        ([] @ stokes_store_events ?m @ create_model_store_serial ?m, None) = (None, tr4, Some s)"
    by (auto simp: mpi_iterator_model example_model_grid mpi_iterator_def)
  from example_loop_rows [of 64 64 "raster 64 64"
      "[] @ stokes_store_events ?m @ create_model_store_serial ?m" None] loop
  have "rows_written DS_I tr4 = map (\<lambda>pix. (int (fst pix), int (snd pix), [6])) (raster 64 64)"
    by (simp add: rows_written_append stokes_store_events_def create_model_store_serial_def
        example_model_grid)
  with w have rows: "rows_written DS_I ?tr =
      map (\<lambda>pix. (int (fst pix), int (snd pix), [6])) (raster 64 64)"
    by (simp add: rows_written_append)
  have "(0, 0, [6::real]) \<in> (\<lambda>pix. (int (fst pix), int (snd pix), [6])) ` set (raster 64 64)"
    by (rule image_eqI [where x = "(0, 0)"]) (simp_all add: raster_mem)
  moreover have "(0, 1, [6::real]) \<in> (\<lambda>pix. (int (fst pix), int (snd pix), [6])) ` set (raster 64 64)"
    by (rule image_eqI [where x = "(0, 1)"]) (simp_all add: raster_mem)
  ultimately have mem: "(0, 0, [6]) \<in> set (rows_written DS_I ?tr)"
    "(0, 1, [6]) \<in> set (rows_written DS_I ?tr)"
    by (simp_all add: rows)
  have len: "length (rows_written DS_I ?tr) = 4096"
    by (simp add: rows length_raster)
  have su: "\<not> isl (fst (mpi_master_setup ?it [] (Some (0, 1)) (Some (0, 1))))"
    by code_simp
  have dist: "map_option (\<lambda>s. (status s, rows_written DS_I (trace s)))
     (run one_agent_one_batch
        (projr (fst (mpi_master_setup ?it [] (Some (0, 1)) (Some (0, 1)))))) =
     Some (Finished, [(0, 0, [3])])"
    by code_simp
  from rows mem len su dist show ?thesis by blast
qed

lemma cube_slice_cases:
  "cube_slice ny nx c iy ix =
     (if list_all (index_ok ny) iy \<and> list_all (index_ok nx) ix
      then Inr (map2 (\<lambda>y x. c (norm_index ny y) (norm_index nx x)) iy ix)
      else Inl IndexError)"
  by (simp add: cube_slice_def)

lemma task_slices_bounds:
  "task_slices m (Some c) iy ix =
     (if list_all (index_ok (model_ny m)) iy \<and> list_all (index_ok (model_nx m)) ix
      then task_slices m (Some c) iy ix else Inl IndexError)"
  "list_all (index_ok (model_ny m)) iy \<and> list_all (index_ok (model_nx m)) ix \<Longrightarrow>
     \<exists>slabs. task_slices m (Some c) iy ix = Inr slabs"
  by (simp_all add: task_slices_def cube_slice_cases Let_def)

lemma task_slices_Inr_bounds:
  assumes "task_slices m cs iy ix = Inr slabs"
  shows "list_all (index_ok (model_ny m)) iy \<and> list_all (index_ok (model_nx m)) ix"
proof (cases cs)
  case None
  with assms show ?thesis by (simp add: task_slices_def)
next
  case (Some c)
  with assms task_slices_bounds(1) [of m c iy ix] show ?thesis
    by (auto split: if_splits)
qed

lemma partition_ignores_grid:
  "make_partition nx ny (Some rx) (Some ry) b = make_partition nx' ny' (Some rx) (Some ry) b"
  by (simp add: make_partition_def axis_coords_def)

lemma master_ready_task_index:
  "task_index (master_ready w s) = task_index s \<or>
   (task_index (master_ready w s) = Suc (task_index s) \<and>
    batch_in_bounds (sys_model s) (sys_partition s) (task_index s))"
proof (cases "int (task_index s) < p_n_batches (sys_partition s)")
  case False
  then show ?thesis by (simp add: master_ready_def)
next
  case True
  show ?thesis
  proof (cases "task_slices (sys_model s) (sys_cubes s)
      (divY (sys_partition s) ! task_index s) (divX (sys_partition s) ! task_index s)")
    case (Inl e)
    with True show ?thesis by (simp add: master_ready_def Let_def)
  next
    case (Inr slabs)
    from task_slices_Inr_bounds [OF Inr]
    have "batch_in_bounds (sys_model s) (sys_partition s) (task_index s)"
      by (simp add: batch_in_bounds_def)
    with True Inr show ?thesis by (simp add: master_ready_def Let_def)
  qed
qed

lemma master_other_task_index:
  "task_index (master_done r s) = task_index s"
  "task_index (master_exit s) = task_index s"
  "task_index (master_finish s) = task_index s"
  by (simp_all add: master_done_def master_exit_def master_finish_def Let_def
      split: prod.splits option.splits list.splits)

lemma step_task_index:
  assumes "step a s = Some s'"
  shows "task_index s' = task_index s \<or>
   (task_index s' = Suc (task_index s) \<and>
    batch_in_bounds (sys_model s) (sys_partition s) (task_index s))"
  using assms
proof (cases rule: step_cases)
  case (MReady w rest)
  from master_ready_task_index
    [of w "s\<lparr>agents := (agents s)[w := (agents s ! w)\<lparr>outbox := rest\<rparr>]\<rparr>"] MReady(6)
  show ?thesis by simp
qed (simp_all add: master_other_task_index)

lemma step_bounds:
  assumes "step a s = Some s'"
    and "\<forall>i < task_index s. batch_in_bounds (sys_model s) (sys_partition s) i"
  shows "\<forall>i < task_index s'. batch_in_bounds (sys_model s') (sys_partition s') i"
proof -
  from step_frame [OF assms(1)] have fr: "sys_model s' = sys_model s"
    "sys_partition s' = sys_partition s" by simp_all
  from step_task_index [OF assms(1)] assms(2) show ?thesis
    by (auto simp: fr less_Suc_eq)
qed

lemma run_bounds:
  "run acts s = Some s' \<Longrightarrow>
   \<forall>i < task_index s. batch_in_bounds (sys_model s) (sys_partition s) i \<Longrightarrow>
   \<forall>i < task_index s'. batch_in_bounds (sys_model s') (sys_partition s') i"
proof (induction acts arbitrary: s)
  case Nil
  then show ?case by simp
next
  case (Cons a acts)
  from Cons.prems(1) obtain s1 where s1: "step a s = Some s1" "run acts s1 = Some s'"
    by (auto split: option.splits)
  from step_bounds [OF s1(1) Cons.prems(2)] s1(2) show ?case by (rule Cons.IH [rotated])
qed

text \<open>
  Claim C5, amended. A sub-rectangle outside the grid is not rejected before computation
  starts. In the distributed path the partition is computed from the rectangle alone,
  whatever the grid. Take any moment of a distributed run at which the coordinator, with
  the cubes loaded and batches left, receives READY from a worker. The START messages
  sent so far carry the batches \<open>0, ..., k - 1\<close> in this order, where \<open>k\<close> is the
  cursor, and all coordinates of these batches are valid indices of the cubes
  (\<open>-n \<le> i < n\<close> on each axis). If all coordinates of batch \<open>k\<close> are valid indices, the
  coordinator sends it to that worker; otherwise it raises \<^verbatim>\<open>IndexError\<close> at that
  moment, having sent nothing for this batch.
\<close>

theorem out_of_grid_raises_at_dispatch:
  assumes init: "mpi_master_setup it [] rangex rangey = (Inr s0, it')"
    and run: "run acts s0 = Some s"
    and st: "step (MasterReceive w) s = Some s'"
    and rdy: "next_is_ready (outbox (agents s ! w))"
    and cubes: "sys_cubes s \<noteq> None"
    and more: "int (task_index s) < p_n_batches (sys_partition s)"
  shows "make_partition nx ny (Some rx) (Some ry) b = make_partition nx' ny' (Some rx) (Some ry) b \<and>
    map (\<lambda>wt. t_index (snd wt)) (start_sends (trace s)) = [0..<task_index s] \<and>
    (\<forall>i < task_index s. batch_in_bounds (sys_model s) (sys_partition s) i) \<and>
    (if batch_in_bounds (sys_model s) (sys_partition s) (task_index s)
     then status s' = Dispatching \<and> task_index s' = Suc (task_index s) \<and>
          (\<exists>t. trace s' = trace s @ [Send w (START t)] \<and> t_index t = task_index s \<and>
               t_indX t = divX (sys_partition s) ! task_index s \<and>
               t_indY t = divY (sys_partition s) ! task_index s)
     else status s' = Raised IndexError \<and> trace s' = trace s \<and> task_index s' = task_index s)"
proof -
  from rdy obtain rest where ob: "outbox (agents s ! w) = READY # rest"
    by (cases "outbox (agents s ! w)" rule: next_is_ready.cases) simp_all
  let ?s1 = "s\<lparr>agents := (agents s)[w := (agents s ! w)\<lparr>outbox := rest\<rparr>]\<rparr>"
  from st ob have d: "status s = Dispatching" and s': "s' = master_ready w ?s1"
    by (auto simp: Let_def split: if_splits)
  from init have "dispatch_inv s0" by (rule setup_dispatch_inv)
  from this run d have "dispatch_inv s" by (rule run_dispatch_inv)
  then have sent: "map (\<lambda>wt. t_index (snd wt)) (start_sends (trace s)) = [0..<task_index s]"
    by (simp add: dispatch_inv_def sends_inv_def)
  from init have "task_index s0 = 0" by (cases rule: setup_Inr)
  then have "\<forall>i < task_index s0. batch_in_bounds (sys_model s0) (sys_partition s0) i" by simp
  with run have before: "\<forall>i < task_index s. batch_in_bounds (sys_model s) (sys_partition s) i"
    by (rule run_bounds)
  from cubes obtain c where c: "sys_cubes s = Some c" by auto
  let ?iy = "divY (sys_partition s) ! task_index s"
  let ?ix = "divX (sys_partition s) ! task_index s"
  have cond: "(if batch_in_bounds (sys_model s) (sys_partition s) (task_index s)
     then status s' = Dispatching \<and> task_index s' = Suc (task_index s) \<and>
          (\<exists>t. trace s' = trace s @ [Send w (START t)] \<and> t_index t = task_index s \<and>
               t_indX t = ?ix \<and> t_indY t = ?iy)
     else status s' = Raised IndexError \<and> trace s' = trace s \<and> task_index s' = task_index s)"
  proof (cases "batch_in_bounds (sys_model s) (sys_partition s) (task_index s)")
    case True
    then obtain slabs where "task_slices (sys_model s) (Some c) ?iy ?ix = Inr slabs"
      using task_slices_bounds(2) [of "sys_model s" ?iy ?ix c] by (auto simp: batch_in_bounds_def)
    with True more d c show ?thesis
      by (simp add: s' master_ready_def Let_def)
  next
    case False
    then have "task_slices (sys_model s) (Some c) ?iy ?ix = Inl IndexError"
      using task_slices_bounds(1) [of "sys_model s" c ?iy ?ix] by (auto simp: batch_in_bounds_def)
    with False more d c show ?thesis
      by (simp add: s' master_ready_def Let_def)
  qed
  from partition_ignores_grid [of nx ny rx ry b nx' ny'] sent before cond
  show ?thesis by (intro conjI)
qed

theorem out_of_grid_raises_at_dispatch_witness:
  "map (\<lambda>wt. t_index (snd wt)) (start_sends (trace
      (the (run one_batch_then_ready
        (projr (fst (mpi_master_setup (mpi_iterator 2 1 (example_model 64 64 None)) []
           (Some (63, 66)) (Some (0, 1))))))))) = [0] \<and>
   batch_in_bounds
     (sys_model
      (the (run one_batch_then_ready
        (projr (fst (mpi_master_setup (mpi_iterator 2 1 (example_model 64 64 None)) []
           (Some (63, 66)) (Some (0, 1))))))))
     (sys_partition
      (the (run one_batch_then_ready
        (projr (fst (mpi_master_setup (mpi_iterator 2 1 (example_model 64 64 None)) []
           (Some (63, 66)) (Some (0, 1)))))))) 0 \<and>
   status (the (step (MasterReceive 0)
      (the (run one_batch_then_ready
        (projr (fst (mpi_master_setup (mpi_iterator 2 1 (example_model 64 64 None)) []
           (Some (63, 66)) (Some (0, 1))))))))) = Raised IndexError"
proof -
  let ?t = "mpi_master_setup (mpi_iterator 2 1 (example_model 64 64 None)) []
           (Some (63, 66)) (Some (0, 1))"
  let ?S = "the (run one_batch_then_ready (projr (fst ?t)))"
  have "case fst ?t of Inr s \<Rightarrow> True | Inl e \<Rightarrow> False"
    by code_simp
  then have su: "?t = (Inr (projr (fst ?t)), snd ?t)"
    by (rule setup_collapse)
  have "run one_batch_then_ready (projr (fst ?t)) \<noteq> None" by code_simp
  then have run: "run one_batch_then_ready (projr (fst ?t)) = Some ?S" by simp
  have "step (MasterReceive 0) ?S \<noteq> None" by code_simp
  then have st: "step (MasterReceive 0) ?S = Some (the (step (MasterReceive 0) ?S))" by simp
  have rdy: "next_is_ready (outbox (agents ?S ! 0))" by code_simp
  have cubes: "sys_cubes ?S \<noteq> None" by code_simp
  have more: "int (task_index ?S) < p_n_batches (sys_partition ?S)" by code_simp
  have out: "\<not> batch_in_bounds (sys_model ?S) (sys_partition ?S) (task_index ?S)" by code_simp
  have ti: "task_index ?S = 1" by code_simp
  from out_of_grid_raises_at_dispatch [OF su run st rdy cubes more] out ti
  show ?thesis by simp
qed

text \<open>
  Claim C5 as stated fails. On a grid of 64 by 64 pixels with \<open>rangex = (63, 66)\<close> and
  \<open>rangey = (0, 1)\<close>, whose second and third columns are outside the grid: the
  coordinator creates the store and enters its loop, one pixel is computed by a worker
  and written by the coordinator, and the coordinator raises only on the second READY;
  and the serial path, which does not read the rectangle, completes without any error.
\<close>

theorem out_of_grid_not_rejected_counterexample:
  "\<not> isl (fst (mpi_master_setup (mpi_iterator 2 1 (example_model 64 64 None)) []
           (Some (63, 66)) (Some (0, 1)))) \<and>
   map_option (\<lambda>s. (status s, rows_written DS_I (trace s)))
     (run (one_batch_then_ready @ [MasterReceive 0])
        (projr (fst (mpi_master_setup (mpi_iterator 2 1 (example_model 64 64 None)) []
           (Some (63, 66)) (Some (0, 1)))))) = Some (Raised IndexError, [(0, 63, [3])]) \<and>
   fst (nonmpi_work (serial_iterator (example_model 64 64 (Some ''model.h5''))) []
      (Some (63, 66)) (Some (0, 1))) = None"
proof -
  let ?m = "example_model 64 64 (Some ''model.h5'')"
  have "self_model (serial_iterator ?m) = Some ?m" "atmosphere_type ?m = ''MURAM''"
    "64 \<le> model_nx ?m" "64 \<le> model_ny ?m" "0 < n_lambda_sir ?m"
    by (simp_all add: serial_iterator_def example_model_def)
  from nonmpi_work_muram [OF this, of "[]" "Some (63, 66)" "Some (0, 1)"]
  have serial: "fst (nonmpi_work (serial_iterator ?m) [] (Some (63, 66)) (Some (0, 1))) = None"
    by (auto simp: example_model_grid)
  have a: "\<not> isl (fst (mpi_master_setup (mpi_iterator 2 1 (example_model 64 64 None)) []
           (Some (63, 66)) (Some (0, 1))))"
    by code_simp
  have b: "map_option (\<lambda>s. (status s, rows_written DS_I (trace s)))
     (run (one_batch_then_ready @ [MasterReceive 0])
        (projr (fst (mpi_master_setup (mpi_iterator 2 1 (example_model 64 64 None)) []
           (Some (63, 66)) (Some (0, 1)))))) = Some (Raised IndexError, [(0, 63, [3])])"
    by code_simp
  from a b serial show ?thesis by blast
qed

lemma sum_list_map_update:
  "w < length xs \<Longrightarrow>
     sum_list (map f (xs[w := a])) + f (xs ! w) = sum_list (map f xs) + (f a :: nat)"
proof (induction xs arbitrary: w)
  case Nil
  then show ?case by simp
next
  case (Cons x xs)
  show ?case
  proof (cases w)
    case 0
    then show ?thesis by simp
  next
    case (Suc v)
    with Cons.prems have "v < length xs" by simp
    from Cons.IH [OF this] Suc show ?thesis by simp
  qed
qed

lemma status_weight_master_done:
  "status s = Dispatching \<Longrightarrow>
     (if status (master_done r s) = Dispatching then 1 else 0) \<le> (1::nat)"
  by simp

lemma potential_agents_update:
  assumes "w < length (agents s)" and "agents s' = (agents s)[w := a']"
    and "sys_partition s' = sys_partition s"
    and "(if status s' = Dispatching then 1 else 0) + 4 * (nat (p_n_batches (sys_partition s)) - task_index s')
          + agent_weight a' <
         (if status s = Dispatching then 1 else (0::nat)) + 4 * (nat (p_n_batches (sys_partition s)) - task_index s)
          + agent_weight (agents s ! w)"
  shows "potential s' < potential s"
  using sum_list_map_update [OF assms(1), of agent_weight a'] assms(2-4)
  by (simp add: potential_def)

lemma step_potential:
  assumes "step a s = Some s'"
  shows "potential s' < potential s"
  using assms
proof (cases rule: step_cases)
  case (SendReady w)
  then show ?thesis
    by (intro potential_agents_update [where w = w and a' = "(agents s ! w)
                     \<lparr>pc := Receive, outbox := outbox (agents s ! w) @ [READY]\<rparr>"])
      (simp_all add: agent_weight_def)
next
  case (RecvStart w t rest)
  then show ?thesis
    by (intro potential_agents_update [where w = w and a' = "(agents s ! w)
                          \<lparr>pc := SendReady, inbox := rest,
                           outbox := outbox (agents s ! w) @ [DONE (agent_compute (sys_model s) t)]\<rparr>"])
      (simp_all add: agent_weight_def)
next
  case (RecvExit w rest)
  then show ?thesis
    by (intro potential_agents_update [where w = w and a' = "(agents s ! w)
                          \<lparr>pc := Exited, inbox := rest,
                           outbox := outbox (agents s ! w) @ [EXIT_ack]\<rparr>"])
      (simp_all add: agent_weight_def)
next
  case (MReady w rest)
  let ?s1 = "s\<lparr>agents := (agents s)[w := (agents s ! w)\<lparr>outbox := rest\<rparr>]\<rparr>"
  show ?thesis
  proof (cases "int (task_index s) < p_n_batches (sys_partition s)")
    case True
    show ?thesis
    proof (cases "task_slices (sys_model s) (sys_cubes s) (divY (sys_partition s) ! task_index s)
             (divX (sys_partition s) ! task_index s)")
      case (Inl e)
      with True MReady show ?thesis
        by (intro potential_agents_update [where w = w and a' = "(agents s ! w)\<lparr>outbox := rest\<rparr>"])
          (simp_all add: agent_weight_def master_ready_def Let_def)
    next
      case (Inr slabs)
      with True MReady show ?thesis
        by (intro potential_agents_update [where w = w and a' = "(agents s ! w)
            \<lparr>outbox := rest, inbox := inbox (agents s ! w) @
               [START \<lparr>t_index = task_index s, t_indX = divX (sys_partition s) ! task_index s,
                  t_indY = divY (sys_partition s) ! task_index s,
                  t_interpolate = interpolate_model s, t_model = slabs\<rparr>]\<rparr>"])
          (simp_all add: agent_weight_def master_ready_def Let_def)
    qed
  next
    case False
    with MReady show ?thesis
      by (intro potential_agents_update [where w = w and a' = "(agents s ! w)
            \<lparr>outbox := rest, inbox := inbox (agents s ! w) @ [EXIT]\<rparr>"])
        (simp_all add: agent_weight_def master_ready_def Let_def)
  qed
next
  case (MDone w r rest)
  let ?s1 = "s\<lparr>agents := (agents s)[w := (agents s ! w)\<lparr>outbox := rest\<rparr>]\<rparr>"
  have "agents s' = agents ?s1" "task_index s' = task_index ?s1"
    by (simp_all add: MDone(6) master_done_def Let_def split: prod.splits option.splits)
  with MDone show ?thesis
    by (intro potential_agents_update [where w = w and a' = "(agents s ! w)\<lparr>outbox := rest\<rparr>"])
      (simp_all add: agent_weight_def master_done_frame)
next
  case (MExit w rest)
  then show ?thesis
    by (intro potential_agents_update [where w = w and a' = "(agents s ! w)\<lparr>outbox := rest\<rparr>"])
      (simp_all add: agent_weight_def master_exit_def)
next
  case Finish
  then show ?thesis
    by (simp add: potential_def master_finish_def split: option.splits list.splits)
qed

lemma run_potential:
  "run acts s = Some s' \<Longrightarrow> length acts + potential s' \<le> potential s"
proof (induction acts arbitrary: s)
  case Nil
  then show ?case by simp
next
  case (Cons a acts)
  from Cons.prems obtain s1 where s1: "step a s = Some s1" "run acts s1 = Some s'"
    by (auto split: option.splits)
  from Cons.IH [OF s1(2)] step_potential [OF s1(1)] show ?case by simp
qed

lemma progress:
  assumes sh: "shape_inv s" and cl: "closed_inv s" and d: "status s = Dispatching"
  shows "\<exists>a. step a s \<noteq> None"
proof (cases "int (closed_workers s) < num_workers s")
  case False
  with d have "step MasterFinish s \<noteq> None" by simp
  then show ?thesis ..
next
  case True
  with sh cl have "length (filter agent_closed (agents s)) < length (agents s)"
    by (simp add: shape_inv_def closed_inv_def)
  then obtain a where "a \<in> set (agents s)" "\<not> agent_closed a"
    by (metis filter_True less_irrefl)
  then obtain w where w: "w < length (agents s)" "\<not> agent_closed (agents s ! w)"
    by (auto simp: in_set_conv_nth)
  from shape_inv_agent [OF sh w(1)] w(2)
  consider (ready) "pc (agents s ! w) = SendReady"
    | (out) "outbox (agents s ! w) \<noteq> []"
    | (inb) "pc (agents s ! w) = Receive" "inbox (agents s ! w) \<noteq> []"
    by (auto simp: agent_ok_def agent_closed_def)
  then show ?thesis
  proof cases
    case ready
    with w(1) have "step (AgentSendReady w) s \<noteq> None" by simp
    then show ?thesis ..
  next
    case out
    with w(1) d True have "step (MasterReceive w) s \<noteq> None"
      by (auto simp: Let_def split: list.splits to_master.splits)
    then show ?thesis ..
  next
    case inb
    with w(1) have "step (AgentReceive w) s \<noteq> None"
      by (auto split: list.splits to_agent.splits)
    then show ?thesis ..
  qed
qed

text \<open>
  Claim C6. Take a distributed run that starts with an empty trace, enters the dispatch
  loop and reaches the end of \<^verbatim>\<open>mpi_master_work\<close>, whatever the order in which the
  processes moved. With \<open>W\<close> workers and \<open>B\<close> batches: the closed-worker counter is \<open>W\<close>;
  the START messages, in the order sent, carry the batches \<open>0, ..., B - 1\<close> with the
  coordinates of the partition, each to one worker; every worker was sent EXIT exactly once
  (so \<open>W\<close> EXIT messages); all messages were sent before the output store was closed.
  And in every state that the loop can reach, the loop can be left exactly when the
  counter equals \<open>W\<close>; some process can always move while the coordinator is in its
  loop; and no run has more than \<open>1 + 4 B + 4 W\<close> steps. So every run that is continued
  as long as a process can move ends, and it ends with the coordinator past its loop or
  with an exception raised.
\<close>

theorem dispatch_loop_messages:
  assumes init: "mpi_master_setup it [] rangex rangey = (Inr s0, it')"
    and run: "run acts s0 = Some s"
    and fin: "status s = Finished"
  shows "0 < num_workers s \<and> int (closed_workers s) = num_workers s \<and>
     map (\<lambda>wt. t_index (snd wt)) (start_sends (trace s)) =
       [0..<nat (p_n_batches (sys_partition s))] \<and>
     (\<forall>wt \<in> set (start_sends (trace s)).
        fst wt < nat (num_workers s) \<and>
        t_indX (snd wt) = divX (sys_partition s) ! t_index (snd wt) \<and>
        t_indY (snd wt) = divY (sys_partition s) ! t_index (snd wt)) \<and>
     mset (exit_sends (trace s)) = mset [0..<nat (num_workers s)] \<and>
     FileClose F_stokes \<in> set (trace s) \<and>
     start_sends (takeWhile (\<lambda>e. e \<noteq> FileClose F_stokes) (trace s)) = start_sends (trace s) \<and>
     exit_sends (takeWhile (\<lambda>e. e \<noteq> FileClose F_stokes) (trace s)) = exit_sends (trace s) \<and>
     (\<forall>acts' s'. run acts' s0 = Some s' \<and> status s' = Dispatching \<longrightarrow>
        (step MasterFinish s' \<noteq> None) = (int (closed_workers s') = num_workers s) \<and>
        (\<exists>a. step a s' \<noteq> None)) \<and>
     (\<forall>acts' s'. run acts' s0 = Some s' \<longrightarrow>
        length acts' \<le> 1 + 4 * nat (p_n_batches (sys_partition s)) + 4 * nat (num_workers s))"
proof -
  from init have inv0: "dispatch_inv s0" by (rule setup_dispatch_inv)
  from init have d0: "status s0 = Dispatching" by (rule setup_Inr)
  from run_finished [OF inv0 d0 run fin] obtain acts1 s1 where
    s1: "run acts1 s0 = Some s1" "dispatch_inv s1" "status s1 = Dispatching"
      "\<not> int (closed_workers s1) < num_workers s1" "s = master_finish s1"
    by blast
  from fin s1(5) have fin1: "status (master_finish s1) = Finished" by simp
  note F = finish_facts [OF s1(2,3,4) fin1]
  from s1(2) have sh: "shape_inv s1" and se: "sends_inv s1" and re: "results_inv s1"
    by (simp_all add: dispatch_inv_def)
  from re have nc: "FileClose F_stokes \<notin> set (trace s1)" by (simp add: results_inv_def)
  note T = finish_trace [OF s1(3) fin1 nc]
  have fr: "sys_partition s = sys_partition s1" "num_workers s = num_workers s1"
    "closed_workers s = closed_workers s1" "interpolate_model s = interpolate_model s1"
    by (simp_all add: s1(5) master_finish_def split: option.splits list.splits)
  have Ts: "start_sends (trace s) = start_sends (trace s1)"
    "exit_sends (trace s) = exit_sends (trace s1)"
    using T(2,3) by (simp_all add: s1(5))
  have 1: "0 < num_workers s" "int (closed_workers s) = num_workers s"
    using F(1,2) by (simp_all add: fr)
  have 2: "map (\<lambda>wt. t_index (snd wt)) (start_sends (trace s)) =
       [0..<nat (p_n_batches (sys_partition s))]"
    using F(4) by (simp add: fr Ts)
  have 3: "fst wt < nat (num_workers s) \<and>
        t_indX (snd wt) = divX (sys_partition s) ! t_index (snd wt) \<and>
        t_indY (snd wt) = divY (sys_partition s) ! t_index (snd wt)"
    if "wt \<in> set (start_sends (trace s))" for wt
  proof -
    from that have "wt \<in> set (start_sends (trace s1))" by (simp add: Ts)
    with se sh show ?thesis
      by (auto simp: sends_inv_def shape_inv_def task_ok_def fr)
  qed
  have 4: "mset (exit_sends (trace s)) = mset [0..<nat (num_workers s)]"
    using F(5) by (simp add: fr Ts)
  from T(1) obtain l where tr: "trace s = trace s1 @ [WriteLambda l, FileClose F_stokes] @
          (if interpolate_model s1 then [FileClose F_model] else [])"
    by (auto simp: s1(5))
  then have 5: "FileClose F_stokes \<in> set (trace s)" by simp
  have 6: "start_sends (takeWhile (\<lambda>e. e \<noteq> FileClose F_stokes) (trace s)) = start_sends (trace s)"
    "exit_sends (takeWhile (\<lambda>e. e \<noteq> FileClose F_stokes) (trace s)) = exit_sends (trace s)"
    using sends_before_close [OF tr nc Ts] by simp_all
  have 7: "(step MasterFinish s' \<noteq> None) = (int (closed_workers s') = num_workers s) \<and>
        (\<exists>a. step a s' \<noteq> None)"
    if "run acts' s0 = Some s'" "status s' = Dispatching" for acts' s'
  proof -
    from run_dispatch_inv [OF inv0 that] have sc: "shape_inv s'" "closed_inv s'"
      by (simp_all add: dispatch_inv_def)
    from progress [OF sc that(2)] have pr: "\<exists>a. step a s' \<noteq> None" .
    from sc have "closed_workers s' \<le> nat (num_workers s')"
      using length_filter_le [of agent_closed "agents s'"]
      by (simp add: shape_inv_def closed_inv_def)
    moreover have "num_workers s' = num_workers s"
      using run_frame [OF that(1)] run_frame [OF s1(1)] by (simp add: fr)
    ultimately have "(step MasterFinish s' \<noteq> None) = (int (closed_workers s') = num_workers s)"
      using that(2) 1(1) by auto
    with pr show ?thesis by simp
  qed
  have 8: "length acts' \<le> 1 + 4 * nat (p_n_batches (sys_partition s)) + 4 * nat (num_workers s)"
    if "run acts' s0 = Some s'" for acts' s'
  proof -
    from init have "potential s0 = 1 + 4 * nat (p_n_batches (sys_partition s0)) +
        4 * nat (num_workers s0)"
      by (cases rule: setup_Inr) (simp add: potential_def agent_weight_def sum_list_replicate)
    moreover have "sys_partition s0 = sys_partition s" "num_workers s0 = num_workers s"
      using run_frame [OF run] by simp_all
    ultimately show ?thesis
      using run_potential [OF that] by simp
  qed
  from 1 2 3 4 5 6 7 8 show ?thesis by blast
qed

theorem dispatch_loop_messages_witness:
  "\<exists>s0 it' s.
     mpi_master_setup (mpi_iterator 4 1 (example_model 64 64 None)) []
       (Some (0, 7)) (Some (0, 1)) = (Inr s0, it') \<and>
     run three_agents_seven_batches s0 = Some s \<and> status s = Finished \<and>
     num_workers s = 3 \<and> closed_workers s = 3 \<and>
     length (start_sends (trace s)) = 7 \<and> length (exit_sends (trace s)) = 3"
proof -
  let ?t = "mpi_master_setup (mpi_iterator 4 1 (example_model 64 64 None)) []
       (Some (0, 7)) (Some (0, 1))"
  have "case fst ?t of Inr s \<Rightarrow> True | Inl e \<Rightarrow> False"
    by code_simp
  then have su: "?t = (Inr (projr (fst ?t)), snd ?t)"
    by (rule setup_collapse)
  have "map_option (\<lambda>s. (status s, p_n_batches (sys_partition s), num_workers s))
      (run three_agents_seven_batches (projr (fst ?t))) = Some (Finished, 7, 3)"
    by code_simp
  then obtain s where s: "run three_agents_seven_batches (projr (fst ?t)) = Some s"
    "status s = Finished" "p_n_batches (sys_partition s) = 7" "num_workers s = 3"
    by auto
  note M = dispatch_loop_messages [OF su s(1,2)]
  from M have "int (closed_workers s) = num_workers s" by blast
  with s(4) have c: "closed_workers s = 3" by simp
  from M have "map (\<lambda>wt. t_index (snd wt)) (start_sends (trace s)) =
       [0..<nat (p_n_batches (sys_partition s))]" by blast
  then have "length (map (\<lambda>wt. t_index (snd wt)) (start_sends (trace s))) = 7"
    by (simp add: s(3))
  then have st: "length (start_sends (trace s)) = 7" by simp
  from M have "mset (exit_sends (trace s)) = mset [0..<nat (num_workers s)]" by blast
  then have "size (mset (exit_sends (trace s))) = 3" by (simp add: s(4))
  then have ex: "length (exit_sends (trace s)) = 3" by simp
  from su s c st ex show ?thesis by blast
qed

end
